theory Spec2Isabelle
  imports Complex_Main "HOL-Library.Monad_Syntax"
begin

section \<open>Data model\<close>

text \<open>
  The chain of \<^verbatim>\<open>chain.cpp\<close> works on C++ vectors of \<^verbatim>\<open>int\<close> and
  \<^verbatim>\<open>double\<close>. Vectors are lists. A \<^verbatim>\<open>double\<close> is modelled by a real
  number: arithmetic is exact, so rounding, overflow and the non-finite values of
  IEEE arithmetic are not represented in this part of the development (the parts
  that are about non-finite values use the type \<open>xdouble\<close> further down). An
  \<^verbatim>\<open>int\<close> is an unbounded integer. Reading or writing a vector outside its
  bounds is undefined behaviour in C++, and constructing a vector with a negative
  size throws; every function of the model returns an option, and \<open>None\<close> stands for
  such a run.

  Where a double of the program would not be finite (a division by zero, the
  logarithm of a number that is not positive) the real-valued model has some real
  number in its place. The theorems about computed values carry the hypotheses that
  exclude these cases (error rates in \<open>(0,1)\<close>, frequencies \<open>\<ge> 0\<close>, a depth \<open>\<ge> 1\<close>,
  an iteration \<open>\<ge> 1\<close>); the theorems about the update blocks returning and about
  what they may change hold for either outcome of every accept/reject comparison.

  The classes \<^verbatim>\<open>GenotypingData\<close>, \<^verbatim>\<open>Lookup\<close> and \<^verbatim>\<open>Parameters\<close> are declared
  outside the sources; the records have the fields that \<^verbatim>\<open>chain.cpp\<close> reads. The
  counts \<^verbatim>\<open>num_loci\<close> and \<^verbatim>\<open>num_samples\<close> are natural numbers.
\<close>

record genotyping_data =
  num_loci :: nat
  num_samples :: nat
  num_alleles :: "int list"
  observed_alleles :: "int list list list"
  observed_coi :: "int list"

record lookup =
  lookup_lgamma :: "real list"
  lookup_sampling_depth :: "int list list"

record parameters =
  importance_sampling_depth :: int
  max_coi :: int
  max_eps_pos :: real
  max_eps_neg :: real
  eps_pos_0 :: real
  eps_neg_0 :: real

text \<open>
  The sampler is declared in \<^verbatim>\<open>sampler.h\<close>; its implementation is not part of
  the sources. It is a parameter of the model: a record of the member functions
  that the chain calls, each taking the state \<open>'s\<close> of the random number engine
  and returning the draw with the next state.
\<close>

record 's sampler =
  sample_coi_delta :: "real \<Rightarrow> 's \<Rightarrow> int \<times> 's"
  sample_allele_frequencies :: "real list \<Rightarrow> real \<Rightarrow> 's \<Rightarrow> real list \<times> 's"
  sample_epsilon_pos :: "real \<Rightarrow> real \<Rightarrow> 's \<Rightarrow> real \<times> 's"
  sample_epsilon_neg :: "real \<Rightarrow> real \<Rightarrow> 's \<Rightarrow> real \<times> 's"
  sample_genotype :: "int \<Rightarrow> real list \<Rightarrow> int \<Rightarrow> 's \<Rightarrow> int list list \<times> 's"
  sample_log_mh_acceptance :: "'s \<Rightarrow> real \<times> 's"

text \<open>\<^verbatim>\<open>#define UNDERFLO 1e-100\<close> of \<^verbatim>\<open>mcmc_utils.h\<close>.\<close>

definition UNDERFLO :: real where
  "UNDERFLO = 1 / 10 ^ 100"

section \<open>Vectors and loops\<close>

text \<open>\<^verbatim>\<open>v[i]\<close> with a \<^verbatim>\<open>size_t\<close> index.\<close>

definition nth_chk :: "'a list \<Rightarrow> nat \<Rightarrow> 'a option" where
  "nth_chk xs i = (if i < length xs then Some (xs ! i) else None)"

text \<open>\<^verbatim>\<open>v[i]\<close> with an \<^verbatim>\<open>int\<close> index: a negative index converts to a huge
  \<^verbatim>\<open>size_t\<close> and is out of bounds.\<close>

definition at_int :: "'a list \<Rightarrow> int \<Rightarrow> 'a option" where
  "at_int xs i = (if 0 \<le> i \<and> nat i < length xs then Some (xs ! nat i) else None)"

text \<open>\<^verbatim>\<open>for (size_t i = 0; i < n; i++) body\<close>: the body runs for
  \<open>i = 0, \<dots>, n - 1\<close> in this order and the loop stops at the first failure.\<close>

fun for_upto :: "nat \<Rightarrow> (nat \<Rightarrow> 'a \<Rightarrow> 'a option) \<Rightarrow> 'a \<Rightarrow> 'a option" where
  "for_upto 0 body a = Some a"
| "for_upto (Suc n) body a = (case for_upto n body a of None \<Rightarrow> None | Some b \<Rightarrow> body n b)"

text \<open>\<^verbatim>\<open>v[i] = x\<close>, and the same for a vector of vectors.\<close>

definition upd_chk :: "'a list \<Rightarrow> nat \<Rightarrow> 'a \<Rightarrow> 'a list option" where
  "upd_chk xs i x = (if i < length xs then Some (xs[i := x]) else None)"

definition nth2_chk :: "'a list list \<Rightarrow> nat \<Rightarrow> nat \<Rightarrow> 'a option" where
  "nth2_chk xss j i = do { row \<leftarrow> nth_chk xss j; nth_chk row i }"

definition upd2_chk :: "'a list list \<Rightarrow> nat \<Rightarrow> nat \<Rightarrow> 'a \<Rightarrow> 'a list list option" where
  "upd2_chk xss j i x = do { row \<leftarrow> nth_chk xss j; row' \<leftarrow> upd_chk row i x; Some (xss[j := row']) }"

section \<open>The likelihood kernel\<close>

text \<open>\<^verbatim>\<open>Chain::reweight_allele_frequencies\<close>.\<close>

definition reweight_allele_frequencies ::
  "real list \<Rightarrow> int list \<Rightarrow> real \<Rightarrow> real \<Rightarrow> real list option" where
  "reweight_allele_frequencies allele_frequencies observed_genotype epsilon_neg epsilon_pos = do {
     (res, res_sum) \<leftarrow> for_upto (length allele_frequencies) (\<lambda>i (res, res_sum). do {
        ob \<leftarrow> nth_chk observed_genotype i;
        let v = allele_frequencies ! i
                  * ((real_of_int ob * (1 - epsilon_neg)) + (real_of_int (1 - ob) * epsilon_neg))
                + epsilon_pos + 1 / 10 ^ 6;
        Some (res[i := v], res_sum + v)
      }) (replicate (length allele_frequencies) 0, 0);
     let res_sum_inv = 1 / res_sum;
     for_upto (length res) (\<lambda>i res. Some (res[i := res ! i * res_sum_inv])) res
   }"

text \<open>\<^verbatim>\<open>Chain::calc_genotype_log_pmf\<close>. A negative \<^verbatim>\<open>num_genotypes\<close> makes the
  constructor of \<^verbatim>\<open>res\<close> throw.\<close>

definition calc_genotype_log_pmf ::
  "lookup \<Rightarrow> int list list \<Rightarrow> int \<Rightarrow> real list \<Rightarrow> int \<Rightarrow> real list option" where
  "calc_genotype_log_pmf lk genotypes coi allele_frequencies num_genotypes = do {
     lg \<leftarrow> at_int (lookup_lgamma lk) (coi + 1);
     if num_genotypes < 0 then None
     else for_upto (length allele_frequencies) (\<lambda>i res.
       let log_prob = ln (allele_frequencies ! i + 1 / 10 ^ 12) in
       for_upto (nat num_genotypes) (\<lambda>j res. do {
         g \<leftarrow> nth_chk genotypes j;
         gi \<leftarrow> nth_chk g i;
         if gi > 0 then do {
           lgi \<leftarrow> at_int (lookup_lgamma lk) (gi + 1);
           Some (res[j := res ! j + ((real_of_int gi * log_prob) - lgi)])
         } else Some res
       }) res) (replicate (nat num_genotypes) lg)
   }"

text \<open>\<^verbatim>\<open>Chain::calc_obs_genotype_lliks\<close>. The tests \<^verbatim>\<open>if(obs_genotype[j])\<close> and
  \<^verbatim>\<open>if(true_genotypes[i][j])\<close> are tests for a non-zero integer.\<close>

definition calc_obs_genotype_lliks ::
  "int list \<Rightarrow> int list list \<Rightarrow> real \<Rightarrow> real \<Rightarrow> int \<Rightarrow> real list option" where
  "calc_obs_genotype_lliks obs_genotype true_genotypes epsilon_neg epsilon_pos num_genotypes =
    (let tp = ln (1 - epsilon_neg);
         tn = ln (1 - epsilon_pos);
         fp = ln epsilon_pos;
         fn = ln epsilon_neg
     in if num_genotypes < 0 then None
        else for_upto (nat num_genotypes) (\<lambda>i lliks. do {
          g \<leftarrow> nth_chk true_genotypes i;
          for_upto (length g) (\<lambda>j lliks. do {
            ob \<leftarrow> nth_chk obs_genotype j;
            Some (if ob \<noteq> 0
              then (if g ! j \<noteq> 0 then lliks[i := lliks ! i + real_of_int (g ! j) * tp]
                    else lliks[i := lliks ! i + fp])
              else (if g ! j \<noteq> 0 then lliks[i := lliks ! i + real_of_int (g ! j) * fn]
                    else lliks[i := lliks ! i + tn]))
          }) lliks
        }) (replicate (length true_genotypes) 0))"

text \<open>\<^verbatim>\<open>Chain::calc_genotype_marginal_llik\<close>. The function returns the estimate
  together with the sampler's next state.\<close>

definition calc_genotype_marginal_llik ::
  "'s sampler \<Rightarrow> lookup \<Rightarrow> parameters \<Rightarrow> int list \<Rightarrow> int \<Rightarrow> real list \<Rightarrow> real \<Rightarrow> real \<Rightarrow> 's
     \<Rightarrow> (real \<times> 's) option" where
  "calc_genotype_marginal_llik smp lk pr obs_genotype coi allele_frequencies epsilon_neg epsilon_pos s = do {
     row \<leftarrow> at_int (lookup_sampling_depth lk) coi;
     cap \<leftarrow> nth_chk row (length allele_frequencies);
     let depth = min (importance_sampling_depth pr) cap;
     importance_reweighted_frequencies \<leftarrow>
       reweight_allele_frequencies allele_frequencies obs_genotype epsilon_neg epsilon_pos;
     let (sample_true_genotypes, s') =
       sample_genotype smp coi importance_reweighted_frequencies depth s;
     importance_probabilities \<leftarrow>
       calc_genotype_log_pmf lk sample_true_genotypes coi importance_reweighted_frequencies depth;
     g_star_probabilities \<leftarrow>
       calc_genotype_log_pmf lk sample_true_genotypes coi allele_frequencies depth;
     g_given_g_star_probabilities \<leftarrow>
       calc_obs_genotype_lliks obs_genotype sample_true_genotypes epsilon_neg epsilon_pos depth;
     res \<leftarrow> for_upto (nat depth) (\<lambda>i res. do {
        a \<leftarrow> nth_chk g_given_g_star_probabilities i;
        b \<leftarrow> nth_chk g_star_probabilities i;
        c \<leftarrow> nth_chk importance_probabilities i;
        Some (res + exp (a + b - c))
      }) 0;
     Some (ln (res / real_of_int depth), s')
   }"

section \<open>The chain and its update blocks\<close>

text \<open>The members of \<^verbatim>\<open>Chain\<close> that \<^verbatim>\<open>chain.cpp\<close> uses (the class declaration
  \<^verbatim>\<open>chain.h\<close> is not part of the sources). The members \<^verbatim>\<open>m\<close> and \<^verbatim>\<open>p\<close> are the
  fields \<open>m_vec\<close> and \<open>p_vec\<close>; \<open>sampler_state\<close> is the state of the member
  \<^verbatim>\<open>sampler\<close>.\<close>

record 's chain =
  genotyping_data :: genotyping_data
  lookup :: lookup
  params :: parameters
  m_vec :: "int list"
  p_vec :: "real list list"
  eps_pos :: real
  eps_neg :: real
  llik_old :: "real list list"
  llik_new :: "real list list"
  llik :: real
  m_prop_mean :: "real list"
  p_prop_var :: "real list"
  eps_pos_var :: real
  eps_neg_var :: real
  m_accept :: "int list"
  p_accept :: "int list"
  eps_pos_accept :: int
  eps_neg_accept :: int
  prop_p :: "real list"
  sampler_state :: 's

text \<open>The three statements that every block runs for the cell of locus \<open>j\<close> and
  sample \<open>i\<close>:
  \<^verbatim>\<open>llik_new[j][i] = calc_genotype_marginal_llik(observed_alleles[j][i], coi, af, en, ep);
  sum_can += llik_new[j][i]; sum_orig += llik_old[j][i];\<close>\<close>

definition eval_cell ::
  "'s sampler \<Rightarrow> nat \<Rightarrow> nat \<Rightarrow> int \<Rightarrow> real list \<Rightarrow> real \<Rightarrow> real
     \<Rightarrow> 's chain \<times> real \<times> real \<Rightarrow> ('s chain \<times> real \<times> real) option" where
  "eval_cell smp j i coi af en ep = (\<lambda>(st, sum_can, sum_orig). do {
     obs_j \<leftarrow> nth_chk (observed_alleles (genotyping_data st)) j;
     obs \<leftarrow> nth_chk obs_j i;
     (v, s') \<leftarrow> calc_genotype_marginal_llik smp (lookup st) (params st) obs coi af en ep
                  (sampler_state st);
     ln' \<leftarrow> upd2_chk (llik_new st) j i v;
     lo \<leftarrow> nth2_chk (llik_old st) j i;
     Some (st\<lparr>llik_new := ln', sampler_state := s'\<rparr>, sum_can + v, sum_orig + lo)
   })"

text \<open>\<^verbatim>\<open>llik_old[j][i] = llik_new[j][i];\<close>\<close>

definition commit_cell :: "nat \<Rightarrow> nat \<Rightarrow> 's chain \<Rightarrow> 's chain option" where
  "commit_cell j i st = do {
     v \<leftarrow> nth2_chk (llik_new st) j i;
     lo \<leftarrow> upd2_chk (llik_old st) j i v;
     Some (st\<lparr>llik_old := lo\<rparr>)
   }"

text \<open>The body of the loop of \<^verbatim>\<open>Chain::update_m\<close> for sample \<open>i\<close>. The vector
  \<^verbatim>\<open>m_prop_mean\<close> is read at index \<open>i\<close> first, so the later writes at the same
  index are in bounds; the same holds for \<^verbatim>\<open>m\<close>.\<close>

definition update_m_sample :: "'s sampler \<Rightarrow> int \<Rightarrow> nat \<Rightarrow> 's chain \<Rightarrow> 's chain option" where
  "update_m_sample smp iteration i st = do {
     mean_i \<leftarrow> nth_chk (m_prop_mean st) i;
     m_i \<leftarrow> nth_chk (m_vec st) i;
     let (delta, s1) = sample_coi_delta smp mean_i (sampler_state st);
     let prop_m = delta + m_i;
     let st = st\<lparr>sampler_state := s1\<rparr>;
     if prop_m = m_i then do {
       acc \<leftarrow> nth_chk (m_accept st) i;
       Some (st\<lparr>m_prop_mean := (m_prop_mean st)[i := mean_i + (1 - 23 / 100) / sqrt (real_of_int iteration)],
                m_accept := (m_accept st)[i := acc + 1]\<rparr>)
     } else if max_coi (params st) \<ge> prop_m \<and> prop_m > 0 then do {
       (st, sum_can, sum_orig) \<leftarrow> for_upto (num_loci (genotyping_data st)) (\<lambda>j (st, sum_can, sum_orig). do {
          p_j \<leftarrow> nth_chk (p_vec st) j;
          eval_cell smp j i prop_m p_j (eps_neg st) (eps_pos st) (st, sum_can, sum_orig)
        }) (st, 0, 0);
       let (logu, s2) = sample_log_mh_acceptance smp (sampler_state st);
       let st = st\<lparr>sampler_state := s2\<rparr>;
       if logu \<le> sum_can - sum_orig then do {
         acc \<leftarrow> nth_chk (m_accept st) i;
         let st = st\<lparr>m_vec := (m_vec st)[i := prop_m],
                     m_prop_mean := (m_prop_mean st)[i := mean_i + (1 - 23 / 100) / sqrt (real_of_int iteration)],
                     m_accept := (m_accept st)[i := acc + 1]\<rparr>;
         for_upto (num_loci (genotyping_data st)) (\<lambda>j st. commit_cell j i st) st
       } else
         let v = mean_i - (23 / 100) / sqrt (real_of_int iteration)
         in Some (st\<lparr>m_prop_mean := (m_prop_mean st)[i := (if v < 0 then 0 else v)]\<rparr>)
     } else Some st
   }"

text \<open>\<^verbatim>\<open>Chain::update_m\<close>.\<close>

definition update_m :: "'s sampler \<Rightarrow> int \<Rightarrow> 's chain \<Rightarrow> 's chain option" where
  "update_m smp iteration st =
     for_upto (num_samples (genotyping_data st)) (update_m_sample smp iteration) st"



text \<open>The nested loop that copies \<^verbatim>\<open>llik_new\<close> to \<^verbatim>\<open>llik_old\<close> for all cells, in
  the accept branch of the two epsilon blocks.\<close>

definition commit_all :: "'s chain \<Rightarrow> 's chain option" where
  "commit_all st =
     for_upto (num_loci (genotyping_data st)) (\<lambda>j st.
       for_upto (num_samples (genotyping_data st)) (\<lambda>i st. commit_cell j i st) st) st"

text \<open>\<^verbatim>\<open>Chain::update_eps_pos\<close>. The calls of \<^verbatim>\<open>UtilFunctions::print\<close> write to the
  console and change nothing in the chain.\<close>

definition update_eps_pos :: "'s sampler \<Rightarrow> int \<Rightarrow> 's chain \<Rightarrow> 's chain option" where
  "update_eps_pos smp iteration st = (
     let (prop_eps_pos, s1) = sample_epsilon_pos smp (eps_pos st) (eps_pos_var st) (sampler_state st);
         st = st\<lparr>sampler_state := s1\<rparr>
     in if prop_eps_pos < max_eps_pos (params st) \<and> prop_eps_pos > 0 then do {
       (st, sum_can, sum_orig) \<leftarrow> for_upto (num_loci (genotyping_data st)) (\<lambda>j acc.
          for_upto (num_samples (genotyping_data st)) (\<lambda>i (st, sum_can, sum_orig). do {
            m_i \<leftarrow> nth_chk (m_vec st) i;
            p_j \<leftarrow> nth_chk (p_vec st) j;
            eval_cell smp j i m_i p_j (eps_neg st) prop_eps_pos (st, sum_can, sum_orig)
          }) acc) (st, 0, 0);
       let (logu, s2) = sample_log_mh_acceptance smp (sampler_state st);
       let st = st\<lparr>sampler_state := s2\<rparr>;
       if logu \<le> sum_can - sum_orig then
         commit_all (st\<lparr>eps_pos := prop_eps_pos,
                        eps_pos_var := eps_pos_var st + (1 - 23 / 100) / sqrt (real_of_int iteration),
                        eps_pos_accept := eps_pos_accept st + 1\<rparr>)
       else
         let v = eps_pos_var st - (23 / 100) / sqrt (real_of_int iteration)
         in Some (st\<lparr>eps_pos_var := (if v < UNDERFLO then UNDERFLO else v)\<rparr>)
     } else Some st)"

text \<open>\<^verbatim>\<open>Chain::update_eps_neg\<close>.\<close>

definition update_eps_neg :: "'s sampler \<Rightarrow> int \<Rightarrow> 's chain \<Rightarrow> 's chain option" where
  "update_eps_neg smp iteration st = (
     let (prop_eps_neg, s1) = sample_epsilon_neg smp (eps_neg st) (eps_neg_var st) (sampler_state st);
         st = st\<lparr>sampler_state := s1\<rparr>
     in if prop_eps_neg < max_eps_neg (params st) \<and> prop_eps_neg > 0 then do {
       (st, sum_can, sum_orig) \<leftarrow> for_upto (num_loci (genotyping_data st)) (\<lambda>j acc.
          for_upto (num_samples (genotyping_data st)) (\<lambda>i (st, sum_can, sum_orig). do {
            m_i \<leftarrow> nth_chk (m_vec st) i;
            p_j \<leftarrow> nth_chk (p_vec st) j;
            eval_cell smp j i m_i p_j prop_eps_neg (eps_pos st) (st, sum_can, sum_orig)
          }) acc) (st, 0, 0);
       let (logu, s2) = sample_log_mh_acceptance smp (sampler_state st);
       let st = st\<lparr>sampler_state := s2\<rparr>;
       if logu \<le> sum_can - sum_orig then
         commit_all (st\<lparr>eps_neg := prop_eps_neg,
                        eps_neg_var := eps_neg_var st + (1 - 23 / 100) / sqrt (real_of_int iteration),
                        eps_neg_accept := eps_neg_accept st + 1\<rparr>)
       else
         let v = eps_neg_var st - (23 / 100) / sqrt (real_of_int iteration)
         in Some (st\<lparr>eps_neg_var := (if v < UNDERFLO then UNDERFLO else v)\<rparr>)
     } else Some st)"

text \<open>\<^verbatim>\<open>Chain::calculate_llik\<close> and \<^verbatim>\<open>Chain::get_llik\<close>: the accessor returns the sum
  and the chain, whose member \<^verbatim>\<open>llik\<close> now holds it.\<close>

definition calculate_llik :: "'s chain \<Rightarrow> 's chain option" where
  "calculate_llik st =
     for_upto (num_loci (genotyping_data st)) (\<lambda>j st.
       for_upto (num_samples (genotyping_data st)) (\<lambda>i st. do {
         v \<leftarrow> nth2_chk (llik_old st) j i;
         Some (st\<lparr>llik := llik st + v\<rparr>)
       }) st) (st\<lparr>llik := 0\<rparr>)"

definition get_llik :: "'s chain \<Rightarrow> (real \<times> 's chain) option" where
  "get_llik st = do { st' \<leftarrow> calculate_llik st; Some (llik st', st') }"

section \<open>Well-formed chains\<close>

text \<open>Modelled from the spec: the implementation of the sampler is not part of the
  sources. The specification says that the multinomial genotype draw "returns D
  samples from Multinomial(coi, q) as count vectors of length |q|": at least \<open>n\<close>
  vectors come back, and each of the first \<open>n\<close> has the length of \<open>q\<close>, non-negative
  entries and the sum \<open>coi\<close>.\<close>

definition genotype_draws_ok :: "'s sampler \<Rightarrow> bool" where
  "genotype_draws_ok smp \<longleftrightarrow>
     (\<forall>coi q n s. 0 \<le> coi \<and> q \<noteq> [] \<longrightarrow>
        (let gs = fst (sample_genotype smp coi q n s)
         in nat n \<le> length gs \<and>
            (\<forall>d<nat n. length (gs ! d) = length q \<and> (\<forall>x\<in>set (gs ! d). 0 \<le> x)
                          \<and> sum_list (gs ! d) = coi)))"


text \<open>The lookup tables cover every COI from 1 to \<^verbatim>\<open>max_coi\<close> for a locus with \<open>A\<close>
  alleles, and the sampling depths are not negative.\<close>

definition lookup_ok :: "lookup \<Rightarrow> parameters \<Rightarrow> nat \<Rightarrow> bool" where
  "lookup_ok lk pr A \<longleftrightarrow>
     0 \<le> importance_sampling_depth pr \<and>
     nat (max_coi pr) + 1 < length (lookup_lgamma lk) \<and>
     nat (max_coi pr) < length (lookup_sampling_depth lk) \<and>
     (\<forall>c. 1 \<le> c \<and> c \<le> max_coi pr \<longrightarrow>
        A < length (lookup_sampling_depth lk ! nat c) \<and> 0 \<le> lookup_sampling_depth lk ! nat c ! A)"

text \<open>The vectors of the chain have the sizes that \<^verbatim>\<open>num_loci\<close>, \<^verbatim>\<open>num_samples\<close> and
  the observations give, as the constructor sets them up.\<close>

definition chain_shape :: "'s chain \<Rightarrow> bool" where
  "chain_shape st \<longleftrightarrow>
     (let gd = genotyping_data st; L = num_loci gd; N = num_samples gd
      in length (observed_alleles gd) = L \<and> length (p_vec st) = L \<and> length (p_prop_var st) = L
         \<and> length (p_accept st) = L \<and> length (llik_old st) = L \<and> length (llik_new st) = L
         \<and> length (m_vec st) = N \<and> length (m_prop_mean st) = N \<and> length (m_accept st) = N
         \<and> (\<forall>j<L. length (observed_alleles gd ! j) = N
                \<and> length (llik_old st ! j) = N \<and> length (llik_new st ! j) = N
                \<and> p_vec st ! j \<noteq> []
                \<and> lookup_ok (lookup st) (params st) (length (p_vec st ! j))
                \<and> (\<forall>i<N. length (observed_alleles gd ! j ! i) = length (p_vec st ! j))))"

text \<open>The COI bounds of the specification: \<open>1 \<le> m[i] \<le> max_coi\<close>.\<close>

definition coi_ok :: "parameters \<Rightarrow> int \<Rightarrow> bool" where
  "coi_ok pr c \<longleftrightarrow> 1 \<le> c \<and> c \<le> max_coi pr"


text \<open>The second chain differs from the first in the two likelihood caches and in the
  sampler's state only, and the caches keep their sizes.\<close>

definition caches_only :: "'s chain \<Rightarrow> 's chain \<Rightarrow> bool" where
  "caches_only st st' \<longleftrightarrow>
     (\<exists>lo ln s. st' = st\<lparr>llik_old := lo, llik_new := ln, sampler_state := s\<rparr>
        \<and> map length lo = map length (llik_old st) \<and> map length ln = map length (llik_new st))"

text \<open>A chain with one locus of two alleles and one sample, with tables that cover
  the COIs 1 and 2.\<close>

definition example_data :: genotyping_data where
  "example_data = \<lparr>num_loci = 1, num_samples = 1, num_alleles = [2],
                     observed_alleles = [[[1, 0]]], observed_coi = [1]\<rparr>"

definition example_lookup :: lookup where
  "example_lookup = \<lparr>lookup_lgamma = [0, 0, 0, ln 2],
                       lookup_sampling_depth = [[5, 5, 5], [5, 5, 5], [5, 5, 5]]\<rparr>"

definition example_params :: parameters where
  "example_params = \<lparr>importance_sampling_depth = 2, max_coi = 2, max_eps_pos = 1 / 2,
                       max_eps_neg = 1 / 2, eps_pos_0 = 1 / 100, eps_neg_0 = 1 / 10\<rparr>"

definition example_chain :: "nat chain" where
  "example_chain = \<lparr>
     genotyping_data = example_data, lookup = example_lookup, params = example_params,
     m_vec = [1], p_vec = [[1 / 2, 1 / 2]], eps_pos = 1 / 100, eps_neg = 1 / 10,
     llik_old = [[- 1]], llik_new = [[- 1]], llik = 0,
     m_prop_mean = [1], p_prop_var = [1], eps_pos_var = 1 / 20, eps_neg_var = 1 / 20,
     m_accept = [0], p_accept = [0], eps_pos_accept = 0, eps_neg_accept = 0,
     prop_p = [], sampler_state = 0\<rparr>"


section \<open>Closed forms of the kernel's loops\<close>

text \<open>The unnormalised proposal weight of allele \<open>k\<close>, the right-hand side of the
  assignment to \<^verbatim>\<open>res[i]\<close> in \<^verbatim>\<open>reweight_allele_frequencies\<close>.\<close>

definition reweight_raw :: "real list \<Rightarrow> int list \<Rightarrow> real \<Rightarrow> real \<Rightarrow> nat \<Rightarrow> real" where
  "reweight_raw af ob en ep k =
     af ! k * ((real_of_int (ob ! k) * (1 - en)) + (real_of_int (1 - ob ! k) * en)) + ep + 1 / 10 ^ 6"

text \<open>What one allele adds to \<^verbatim>\<open>lliks[i]\<close> in \<^verbatim>\<open>calc_obs_genotype_lliks\<close>.\<close>

definition obs_term :: "real \<Rightarrow> real \<Rightarrow> int \<Rightarrow> int \<Rightarrow> real" where
  "obs_term en ep ob t =
     (if ob \<noteq> 0 then (if t \<noteq> 0 then real_of_int t * ln (1 - en) else ln ep)
      else (if t \<noteq> 0 then real_of_int t * ln en else ln (1 - ep)))"

text \<open>What one allele adds to \<^verbatim>\<open>res[j]\<close> in \<^verbatim>\<open>calc_genotype_log_pmf\<close>: nothing
  when its count is not positive.\<close>

definition pmf_term :: "lookup \<Rightarrow> real list \<Rightarrow> nat \<Rightarrow> int \<Rightarrow> real" where
  "pmf_term lk af a g =
     (if g > 0 then real_of_int g * ln (af ! a + 1 / 10 ^ 12) - lookup_lgamma lk ! nat (g + 1) else 0)"

text \<open>The first \<open>d\<close> genotypes exist, have at least \<open>n\<close> alleles each, and every
  positive count has its entry in the log-Gamma table: the reads of
  \<^verbatim>\<open>calc_genotype_log_pmf\<close> stay in bounds.\<close>

definition genotypes_in_table :: "lookup \<Rightarrow> int list list \<Rightarrow> nat \<Rightarrow> nat \<Rightarrow> bool" where
  "genotypes_in_table lk gs d n \<longleftrightarrow>
     d \<le> length gs \<and>
     (\<forall>j<d. n \<le> length (gs ! j) \<and>
        (\<forall>a<n. gs ! j ! a > 0 \<longrightarrow> nat (gs ! j ! a + 1) < length (lookup_lgamma lk)))"

section \<open>The kernel as the specification states it\<close>

text \<open>The logarithm of the Gamma function at a positive integer \<open>k\<close>, where
  \<open>\<Gamma>(k) = (k - 1)!\<close>.\<close>

definition lnGamma :: "int \<Rightarrow> real" where
  "lnGamma k = ln (fact (nat (k - 1)))"

text \<open>Modelled from the spec: the constructor of the \<^verbatim>\<open>Lookup\<close> tables is not part
  of the sources. The specification's data model says \<^verbatim>\<open>lgamma[k] = ln Gamma(k)\<close>;
  the predicate states it for the indices \<open>1, \<dots>, K\<close>.\<close>

definition lgamma_table_ok :: "lookup \<Rightarrow> nat \<Rightarrow> bool" where
  "lgamma_table_ok lk K \<longleftrightarrow>
     K < length (lookup_lgamma lk) \<and>
     (\<forall>k. 1 \<le> k \<and> k \<le> K \<longrightarrow> lookup_lgamma lk ! k = lnGamma (int k))"

text \<open>The multinomial log-pmf in the specification's words:
  \<^verbatim>\<open>lnGamma(coi+1) - sum_a lnGamma(g_a+1) + sum_a g_a * log(pi_a + 1e-12)\<close>.\<close>

definition spec_multinomial_log_pmf :: "int \<Rightarrow> int list \<Rightarrow> real list \<Rightarrow> real" where
  "spec_multinomial_log_pmf coi g \<pi> =
     lnGamma (coi + 1) - (\<Sum>a<length \<pi>. lnGamma (g ! a + 1))
       + (\<Sum>a<length \<pi>. real_of_int (g ! a) * ln (\<pi> ! a + 1 / 10 ^ 12))"

text \<open>The emission table of the specification, for an observation \<open>ob\<close> that is 0 or 1
  and a count \<open>g \<ge> 0\<close>.\<close>

definition spec_emission :: "int \<Rightarrow> int \<Rightarrow> real \<Rightarrow> real \<Rightarrow> real" where
  "spec_emission ob g en ep =
     (if ob = 1 \<and> g > 0 then real_of_int g * ln (1 - en)
      else if ob = 1 \<and> g = 0 then ln ep
      else if ob = 0 \<and> g > 0 then real_of_int g * ln en
      else ln (1 - ep))"

definition spec_obs_llik :: "int list \<Rightarrow> int list \<Rightarrow> real \<Rightarrow> real \<Rightarrow> real" where
  "spec_obs_llik obs g en ep = (\<Sum>a<length obs. spec_emission (obs ! a) (g ! a) en ep)"


section \<open>A deterministic sampler\<close>

text \<open>An instance of the sampler's interface for concrete runs: the delta of the COI
  is \<open>\<delta>\<close>, the allele frequencies are proposed unchanged, the error rates are
  proposed as \<open>e\<close>, every drawn genotype puts all \<open>coi\<close> strains on the first
  allele, and the logarithm of the uniform draw is \<open>u\<close>. The engine's state counts the
  draws.\<close>

definition fixed_sampler :: "int \<Rightarrow> real \<Rightarrow> real \<Rightarrow> nat sampler" where
  "fixed_sampler \<delta> e u = \<lparr>
     sample_coi_delta = (\<lambda>mean s. (\<delta>, Suc s)),
     sample_allele_frequencies = (\<lambda>p v s. (p, Suc s)),
     sample_epsilon_pos = (\<lambda>curr v s. (e, Suc s)),
     sample_epsilon_neg = (\<lambda>curr v s. (e, Suc s)),
     sample_genotype = (\<lambda>coi q n s. (replicate (nat n) (coi # replicate (length q - 1) 0), Suc s)),
     sample_log_mh_acceptance = (\<lambda>s. (u, Suc s))
   \<rparr>"

section \<open>Construction: the empirical allele frequencies\<close>

text \<open>\<^verbatim>\<open>Chain::initialize_p\<close> divides by a count that can be zero, and the quotient of
  two doubles is then not a number. This part of the model therefore keeps the
  non-finite values of IEEE 754 arithmetic apart from the finite ones (whose rounding
  is not modelled).\<close>

datatype xdouble = Finite real | PosInf | NegInf | NaN

text \<open>\<^verbatim>\<open>a / (double) b\<close> for two \<^verbatim>\<open>int\<close>s: the quotient of the two converted values,
  an infinity when only the divisor is zero, and NaN for \<open>0 / 0\<close>.\<close>

definition int_div_double :: "int \<Rightarrow> int \<Rightarrow> xdouble" where
  "int_div_double a b =
     (if b = 0 then (if a = 0 then NaN else if a > 0 then PosInf else NegInf)
      else Finite (real_of_int a / real_of_int b))"

text \<open>The body of the innermost loop of \<^verbatim>\<open>Chain::initialize_p\<close>, for locus \<open>i\<close>,
  sample \<open>j\<close> and allele \<open>k\<close>: while the first sample is read the row
  \<^verbatim>\<open>total_locus_alleles[i]\<close> grows by one zero, then the observation is added to the
  allele's count and to the total of the locus.\<close>

definition count_allele ::
  "nat \<Rightarrow> nat \<Rightarrow> int list \<Rightarrow> nat \<Rightarrow> int list list \<times> int list \<Rightarrow> (int list list \<times> int list) option" where
  "count_allele i j genotype k = (\<lambda>(total_locus_alleles, total_alleles). do {
     total_locus_alleles \<leftarrow>
       (if j = 0 then do {
          row \<leftarrow> nth_chk total_locus_alleles i;
          Some (total_locus_alleles[i := row @ [0]])
        } else Some total_locus_alleles);
     row \<leftarrow> nth_chk total_locus_alleles i;
     c \<leftarrow> nth_chk row k;
     t \<leftarrow> nth_chk total_alleles i;
     Some (total_locus_alleles[i := row[k := c + genotype ! k]],
           total_alleles[i := t + genotype ! k])
   })"

text \<open>The two nested loops over the samples of locus \<open>i\<close> and their alleles.\<close>

definition count_locus ::
  "nat \<Rightarrow> int list list \<Rightarrow> int list list \<times> int list \<Rightarrow> (int list list \<times> int list) option" where
  "count_locus i obs_locus_genotypes =
     for_upto (length obs_locus_genotypes) (\<lambda>j acc.
       let genotype = obs_locus_genotypes ! j
       in for_upto (length genotype) (count_allele i j genotype) acc)"

text \<open>The last loop of the body: \<^verbatim>\<open>p[i][j] = total_locus_alleles[i][j] / (double) total_alleles[i]\<close>.\<close>

definition frequencies_locus ::
  "nat \<Rightarrow> nat \<Rightarrow> int list list \<Rightarrow> int list \<Rightarrow> xdouble list list \<Rightarrow> xdouble list list option" where
  "frequencies_locus i n total_locus_alleles total_alleles =
     for_upto n (\<lambda>j p. do {
       row \<leftarrow> nth_chk total_locus_alleles i;
       c \<leftarrow> nth_chk row j;
       t \<leftarrow> nth_chk total_alleles i;
       p_i \<leftarrow> nth_chk p i;
       p_i' \<leftarrow> upd_chk p_i j (int_div_double c t);
       Some (p[i := p_i'])
     })"

text \<open>\<^verbatim>\<open>Chain::initialize_p\<close>, called once by the constructor, when the member \<^verbatim>\<open>p\<close> is
  still empty. The function returns \<^verbatim>\<open>p\<close>. The two local vectors are constructed
  with \<^verbatim>\<open>num_loci\<close> entries and \<^verbatim>\<open>push_back\<close> appends behind those, so the indexed
  reads and writes at \<open>i\<close> go to the entries of the constructor. A negative
  \<^verbatim>\<open>num_alleles[i]\<close> makes the vector constructor throw. The first statement,
  which resizes the member \<^verbatim>\<open>p_accept\<close>, does not touch \<^verbatim>\<open>p\<close>.\<close>

definition initialize_p :: "genotyping_data \<Rightarrow> xdouble list list option" where
  "initialize_p gd = do {
     (total_locus_alleles, total_alleles, p) \<leftarrow>
       for_upto (num_loci gd) (\<lambda>i (total_locus_alleles, total_alleles, p). do {
         na \<leftarrow> nth_chk (num_alleles gd) i;
         if na < 0 then None else do {
           let total_locus_alleles = total_locus_alleles @ [replicate (nat na) 0];
           let total_alleles = total_alleles @ [0];
           let p = p @ [replicate (nat na) (Finite 0)];
           obs_locus_genotypes \<leftarrow> nth_chk (observed_alleles gd) i;
           (total_locus_alleles, total_alleles) \<leftarrow>
             count_locus i obs_locus_genotypes (total_locus_alleles, total_alleles);
           p \<leftarrow> frequencies_locus i (nat na) total_locus_alleles total_alleles p;
           Some (total_locus_alleles, total_alleles, p)
         }
       }) (replicate (num_loci gd) [], replicate (num_loci gd) 0, []);
     Some p
   }"

text \<open>How often allele \<open>k\<close> of locus \<open>i\<close> is observed, and the number of all
  observed alleles of the locus.\<close>

definition allele_count :: "genotyping_data \<Rightarrow> nat \<Rightarrow> nat \<Rightarrow> int" where
  "allele_count gd i k = (\<Sum>j<length (observed_alleles gd ! i). observed_alleles gd ! i ! j ! k)"

definition allele_total :: "genotyping_data \<Rightarrow> nat \<Rightarrow> int" where
  "allele_total gd i = (\<Sum>j<length (observed_alleles gd ! i). sum_list (observed_alleles gd ! i ! j))"

text \<open>The observations are rectangular: every locus has its number of alleles, at
  least one sample, and one observation of that length per sample.\<close>

definition data_ok :: "genotyping_data \<Rightarrow> bool" where
  "data_ok gd \<longleftrightarrow>
     num_loci gd \<le> length (num_alleles gd) \<and> num_loci gd \<le> length (observed_alleles gd) \<and>
     (\<forall>i<num_loci gd. 0 \<le> num_alleles gd ! i \<and> observed_alleles gd ! i \<noteq> [] \<and>
        (\<forall>g\<in>set (observed_alleles gd ! i). length g = nat (num_alleles gd ! i)))"

text \<open>The simplex invariant of the specification for a vector of doubles: every entry
  is a finite number \<open>\<ge> 0\<close> and the entries sum to 1.\<close>

definition xsimplex :: "xdouble list \<Rightarrow> bool" where
  "xsimplex v \<longleftrightarrow> (\<exists>rs. v = map Finite rs \<and> (\<forall>x\<in>set rs. 0 \<le> x) \<and> sum_list rs = 1)"

text \<open>Observations of two samples at two loci of two alleles; no allele of the second
  locus is observed.\<close>

definition silent_locus_data :: genotyping_data where
  "silent_locus_data = \<lparr>num_loci = 2, num_samples = 2, num_alleles = [2, 2],
     observed_alleles = [[[1, 0], [1, 1]], [[0, 0], [0, 0]]], observed_coi = [1, 2]\<rparr>"

section \<open>The kernel with the underflow of the exponential\<close>

text \<open>The value of \<^verbatim>\<open>exp(x)\<close> in double precision for a finite \<open>x\<close>, as far as
  underflow goes: the smallest positive double is \<open>2 ^ -1074\<close>, and a result below
  half of it rounds to zero. Rounding of the other results and overflow are not
  modelled.\<close>

definition double_exp :: "real \<Rightarrow> real" where
  "double_exp x = (if exp x < 1 / 2 ^ 1075 then 0 else exp x)"

text \<open>\<^verbatim>\<open>log(x)\<close> for a finite \<open>x\<close>: minus infinity at zero, NaN below zero.\<close>

definition double_log :: "real \<Rightarrow> xdouble" where
  "double_log x = (if x = 0 then NegInf else if x < 0 then NaN else Finite (ln x))"

text \<open>\<^verbatim>\<open>Chain::calc_genotype_marginal_llik\<close> once more, with \<open>double_exp\<close> and
  \<open>double_log\<close> in the place of the exact functions in its last lines: the sum over
  the draws, the division by the depth (\<open>0 / 0\<close> is NaN) and the logarithm.\<close>

definition calc_genotype_marginal_llik_ieee ::
  "'s sampler \<Rightarrow> lookup \<Rightarrow> parameters \<Rightarrow> int list \<Rightarrow> int \<Rightarrow> real list \<Rightarrow> real \<Rightarrow> real \<Rightarrow> 's
     \<Rightarrow> (xdouble \<times> 's) option" where
  "calc_genotype_marginal_llik_ieee smp lk pr obs_genotype coi allele_frequencies epsilon_neg epsilon_pos s = do {
     row \<leftarrow> at_int (lookup_sampling_depth lk) coi;
     cap \<leftarrow> nth_chk row (length allele_frequencies);
     let depth = min (importance_sampling_depth pr) cap;
     importance_reweighted_frequencies \<leftarrow>
       reweight_allele_frequencies allele_frequencies obs_genotype epsilon_neg epsilon_pos;
     let (sample_true_genotypes, s') =
       sample_genotype smp coi importance_reweighted_frequencies depth s;
     importance_probabilities \<leftarrow>
       calc_genotype_log_pmf lk sample_true_genotypes coi importance_reweighted_frequencies depth;
     g_star_probabilities \<leftarrow>
       calc_genotype_log_pmf lk sample_true_genotypes coi allele_frequencies depth;
     g_given_g_star_probabilities \<leftarrow>
       calc_obs_genotype_lliks obs_genotype sample_true_genotypes epsilon_neg epsilon_pos depth;
     res \<leftarrow> for_upto (nat depth) (\<lambda>i res. do {
        a \<leftarrow> nth_chk g_given_g_star_probabilities i;
        b \<leftarrow> nth_chk g_star_probabilities i;
        c \<leftarrow> nth_chk importance_probabilities i;
        Some (res + double_exp (a + b - c))
      }) 0;
     Some (if depth = 0 then NaN else double_log (res / real_of_int depth), s')
   }"

text \<open>The logarithm of the importance weight of a draw \<open>g\<close>, in the specification's
  terms.\<close>

definition spec_log_weight ::
  "int list \<Rightarrow> int \<Rightarrow> real list \<Rightarrow> real list \<Rightarrow> real \<Rightarrow> real \<Rightarrow> int list \<Rightarrow> real" where
  "spec_log_weight obs coi p q en ep g =
     spec_obs_llik obs g en ep + spec_multinomial_log_pmf coi g p - spec_multinomial_log_pmf coi g q"

text \<open>Tables for a locus of three alleles.\<close>

definition three_allele_lookup :: lookup where
  "three_allele_lookup = \<lparr>lookup_lgamma = [0, 0, 0, ln 2],
                            lookup_sampling_depth = [[5, 5, 5, 5], [5, 5, 5, 5], [5, 5, 5, 5]]\<rparr>"

section \<open>Loop rules\<close>

text \<open>A loop whose body keeps an invariant and never fails returns, with the invariant.\<close>
lemma for_upto_total:
  assumes "I 0 a"
    and "\<And>i b. i < n \<Longrightarrow> I i b \<Longrightarrow> \<exists>c. body i b = Some c \<and> I (Suc i) c"
  shows "\<exists>c. for_upto n body a = Some c \<and> I n c"
  using assms(2)
proof (induction n)
  case 0
  then show ?case using assms(1) by simp
next
  case (Suc n)
  then have "\<exists>c. for_upto n body a = Some c \<and> I n c" by simp
  then obtain b where b: "for_upto n body a = Some b" "I n b" by blast
  from Suc.prems [of n b] b(2) obtain c where "body n b = Some c" "I (Suc n) c" by blast
  with b show ?case by simp
qed

lemma reweight_closed:
  assumes "length af \<le> length ob"
  shows "reweight_allele_frequencies af ob en ep =
     Some (map (\<lambda>k. reweight_raw af ob en ep k * (1 / (\<Sum>i<length af. reweight_raw af ob en ep i))) [0..<length af])"
proof -
  let ?n = "length af"
  let ?w = "reweight_raw af ob en ep"
  let ?body1 = "(\<lambda>i (res, res_sum). do {
        ob \<leftarrow> nth_chk ob i;
        let v = af ! i
                  * ((real_of_int ob * (1 - en)) + (real_of_int (1 - ob) * en))
                + ep + 1 / 10 ^ 6;
        Some (res[i := v], res_sum + v)
      })"
  let ?I1 = "\<lambda>i (rs :: real list \<times> real). length (fst rs) = ?n \<and> (\<forall>k<i. fst rs ! k = ?w k) \<and> snd rs = (\<Sum>k<i. ?w k)"
  have "\<exists>c. for_upto ?n ?body1 (replicate ?n 0, 0) = Some c \<and> ?I1 ?n c"
  proof (rule for_upto_total [where I = ?I1])
    show "?I1 0 (replicate ?n 0, 0)" by simp
  next
    fix i b assume i: "i < ?n" and b: "?I1 i b"
    obtain res s where rs: "b = (res, s)" by (cases b)
    have "i < length ob" using i assms by simp
    then show "\<exists>c. ?body1 i b = Some c \<and> ?I1 (Suc i) c"
      using b i by (auto simp: rs nth_chk_def reweight_raw_def nth_list_update less_Suc_eq Let_def)
  qed
  then obtain res s where l1: "for_upto ?n ?body1 (replicate ?n 0, 0) = Some (res, s)"
    and len: "length res = ?n" and vals: "\<forall>k<?n. res ! k = ?w k" and s: "s = (\<Sum>k<?n. ?w k)"
    by auto
  let ?body2 = "\<lambda>i r. Some (r[i := r ! i * (1 / s)])"
  let ?I2 = "\<lambda>i (r :: real list). length r = ?n \<and> (\<forall>k<?n. r ! k = (if k < i then res ! k * (1 / s) else res ! k))"
  have "\<exists>c. for_upto ?n ?body2 res = Some c \<and> ?I2 ?n c"
  proof (rule for_upto_total [where I = ?I2])
    show "?I2 0 res" using len by simp
  next
    fix i b assume "i < ?n" and "?I2 i b"
    then show "\<exists>c. ?body2 i b = Some c \<and> ?I2 (Suc i) c"
      by (auto simp: nth_list_update less_Suc_eq)
  qed
  then obtain r where l2: "for_upto ?n ?body2 res = Some r" and lr: "length r = ?n"
    and rv: "\<forall>k<?n. r ! k = res ! k * (1 / s)" by auto
  have "r = map (\<lambda>k. ?w k * (1 / s)) [0..<?n]"
    using lr rv vals by (auto intro!: nth_equalityI)
  then show ?thesis
    unfolding reweight_allele_frequencies_def using l1 l2 len s by simp
qed


lemma reweight_raw_pos:
  assumes "0 \<le> af ! k" "ob ! k = 0 \<or> ob ! k = 1" "0 < en" "en < 1" "0 \<le> ep"
  shows "0 < reweight_raw af ob en ep k"
proof -
  have "0 \<le> af ! k * ((real_of_int (ob ! k) * (1 - en)) + (real_of_int (1 - ob ! k) * en))"
    using assms by (intro mult_nonneg_nonneg) auto
  then show ?thesis unfolding reweight_raw_def using assms(5) by simp
qed

lemma reweight_simplex_aux:
  assumes len: "length observed = length p" and ne: "p \<noteq> []"
    and nonneg: "\<forall>x\<in>set p. 0 \<le> x"
    and obs: "\<forall>ob\<in>set observed. ob = 0 \<or> ob = 1"
    and en: "0 < en" "en < 1" and ep: "0 \<le> ep"
  shows "\<exists>q. reweight_allele_frequencies p observed en ep = Some q \<and> length q = length p
            \<and> sum_list q = 1 \<and> (\<forall>x\<in>set q. 0 < x)"
proof -
  let ?n = "length p"
  let ?w = "reweight_raw p observed en ep"
  let ?S = "\<Sum>i<?n. ?w i"
  let ?q = "map (\<lambda>k. ?w k * (1 / ?S)) [0..<?n]"
  have wpos: "0 < ?w k" if "k < ?n" for k
    using that len nonneg obs en ep by (intro reweight_raw_pos) auto
  have "0 < ?n" using ne by simp
  then have Spos: "0 < ?S"
    using wpos by (intro sum_pos) auto
  have eq: "reweight_allele_frequencies p observed en ep = Some ?q"
    using len by (simp add: reweight_closed)
  have "sum_list ?q = (\<Sum>k<?n. ?w k * (1 / ?S))"
    by (simp add: interv_sum_list_conv_sum_set_nat atLeast0LessThan)
  also have "\<dots> = ?S * (1 / ?S)" by (rule sum_distrib_right [symmetric])
  also have "\<dots> = 1" using Spos by simp
  finally have one: "sum_list ?q = 1" .
  have pos: "\<forall>x\<in>set ?q. 0 < x" using wpos Spos by auto
  show ?thesis using eq one pos by simp
qed



lemma obs_inner_loop:
  assumes "length g \<le> length obs" and "i < length L"
  shows "for_upto (length g) (\<lambda>j lliks. do {
            ob \<leftarrow> nth_chk obs j;
            Some (if ob \<noteq> 0
              then (if g ! j \<noteq> 0 then lliks[i := lliks ! i + real_of_int (g ! j) * ln (1 - en)]
                    else lliks[i := lliks ! i + ln ep])
              else (if g ! j \<noteq> 0 then lliks[i := lliks ! i + real_of_int (g ! j) * ln en]
                    else lliks[i := lliks ! i + ln (1 - ep)]))
          }) L = Some (L[i := L ! i + (\<Sum>j<length g. obs_term en ep (obs ! j) (g ! j))])"
    (is "for_upto _ ?body L = _")
proof -
  let ?I = "\<lambda>j l. l = L[i := L ! i + (\<Sum>k<j. obs_term en ep (obs ! k) (g ! k))]"
  have "\<exists>c. for_upto (length g) ?body L = Some c \<and> ?I (length g) c"
  proof (rule for_upto_total [where I = ?I])
    show "?I 0 L" by simp
  next
    fix j b assume "j < length g" and "?I j b"
    then show "\<exists>c. ?body j b = Some c \<and> ?I (Suc j) c"
      using assms by (auto simp: nth_chk_def obs_term_def add.assoc)
  qed
  then show ?thesis by auto
qed

lemma calc_obs_genotype_lliks_closed:
  assumes n: "0 \<le> n" "nat n \<le> length gs"
    and len: "\<forall>i<nat n. length (gs ! i) \<le> length obs"
  shows "calc_obs_genotype_lliks obs gs en ep n =
     Some (map (\<lambda>i. if i < nat n then (\<Sum>j<length (gs ! i). obs_term en ep (obs ! j) (gs ! i ! j)) else 0)
             [0..<length gs])"
proof -
  let ?row = "\<lambda>i. (\<Sum>j<length (gs ! i). obs_term en ep (obs ! j) (gs ! i ! j))"
  let ?body = "\<lambda>i lliks. do {
          g \<leftarrow> nth_chk gs i;
          for_upto (length g) (\<lambda>j lliks. do {
            ob \<leftarrow> nth_chk obs j;
            Some (if ob \<noteq> 0
              then (if g ! j \<noteq> 0 then lliks[i := lliks ! i + real_of_int (g ! j) * ln (1 - en)]
                    else lliks[i := lliks ! i + ln ep])
              else (if g ! j \<noteq> 0 then lliks[i := lliks ! i + real_of_int (g ! j) * ln en]
                    else lliks[i := lliks ! i + ln (1 - ep)]))
          }) lliks
        }"
  let ?I = "\<lambda>i (l :: real list). l = map (\<lambda>k. if k < i then ?row k else 0) [0..<length gs]"
  have "\<exists>c. for_upto (nat n) ?body (replicate (length gs) 0) = Some c \<and> ?I (nat n) c"
  proof (rule for_upto_total [where I = ?I])
    show "?I 0 (replicate (length gs) 0)" by (auto intro!: nth_equalityI)
  next
    fix i b assume i: "i < nat n" and b: "?I i b"
    have ig: "i < length gs" using i n by simp
    have il: "i < length b" using b ig by simp
    have lo: "length (gs ! i) \<le> length obs" using len i by simp
    have "?body i b = Some (b[i := b ! i + ?row i])"
      using ig obs_inner_loop [OF lo il, of en ep] by (simp add: nth_chk_def)
    moreover have "?I (Suc i) (b[i := b ! i + ?row i])"
      using b ig by (auto intro!: nth_equalityI simp: nth_list_update less_Suc_eq)
    ultimately show "\<exists>c. ?body i b = Some c \<and> ?I (Suc i) c" by simp
  qed
  then show ?thesis
    unfolding calc_obs_genotype_lliks_def using n by (auto simp: Let_def)
qed



lemma pmf_inner_loop:
  assumes ok: "genotypes_in_table lk gs d n" and i: "i < n" and len: "length R = d"
  shows "for_upto d (\<lambda>j res. do {
         g \<leftarrow> nth_chk gs j;
         gi \<leftarrow> nth_chk g i;
         if gi > 0 then do {
           lgi \<leftarrow> at_int (lookup_lgamma lk) (gi + 1);
           Some (res[j := res ! j + ((real_of_int gi * ln (af ! i + 1 / 10 ^ 12)) - lgi)])
         } else Some res
       }) R = Some (map (\<lambda>j. R ! j + pmf_term lk af i (gs ! j ! i)) [0..<d])"
    (is "for_upto _ ?body R = _")
proof -
  let ?I = "\<lambda>j (l :: real list). l = map (\<lambda>k. R ! k + (if k < j then pmf_term lk af i (gs ! k ! i) else 0)) [0..<d]"
  have "\<exists>c. for_upto d ?body R = Some c \<and> ?I d c"
  proof (rule for_upto_total [where I = ?I])
    show "?I 0 R" using len by (auto intro!: nth_equalityI)
  next
    fix j b assume j: "j < d" and b: "?I j b"
    have jg: "j < length gs" and ig: "i < length (gs ! j)"
      and tab: "gs ! j ! i > 0 \<Longrightarrow> nat (gs ! j ! i + 1) < length (lookup_lgamma lk)"
      using ok j i by (auto simp: genotypes_in_table_def)
    have "?body j b = Some (b[j := b ! j + pmf_term lk af i (gs ! j ! i)])"
    proof (cases "gs ! j ! i > 0")
      case True
      then show ?thesis using jg ig tab by (simp add: nth_chk_def at_int_def pmf_term_def)
    next
      case False
      then show ?thesis using jg ig by (simp add: nth_chk_def pmf_term_def)
    qed
    moreover have "?I (Suc j) (b[j := b ! j + pmf_term lk af i (gs ! j ! i)])"
      using b j by (auto intro!: nth_equalityI simp: nth_list_update less_Suc_eq)
    ultimately show "\<exists>c. ?body j b = Some c \<and> ?I (Suc j) c" by simp
  qed
  then show ?thesis by (auto intro!: nth_equalityI)
qed

lemma calc_genotype_log_pmf_closed:
  assumes coi: "0 \<le> coi + 1" "nat (coi + 1) < length (lookup_lgamma lk)"
    and n: "0 \<le> n"
    and ok: "genotypes_in_table lk gs (nat n) (length af)"
  shows "calc_genotype_log_pmf lk gs coi af n =
     Some (map (\<lambda>j. lookup_lgamma lk ! nat (coi + 1) + (\<Sum>a<length af. pmf_term lk af a (gs ! j ! a)))
             [0..<nat n])"
proof -
  let ?lg = "lookup_lgamma lk ! nat (coi + 1)"
  let ?body = "\<lambda>i res.
       let log_prob = ln (af ! i + 1 / 10 ^ 12) in
       for_upto (nat n) (\<lambda>j res. do {
         g \<leftarrow> nth_chk gs j;
         gi \<leftarrow> nth_chk g i;
         if gi > 0 then do {
           lgi \<leftarrow> at_int (lookup_lgamma lk) (gi + 1);
           Some (res[j := res ! j + ((real_of_int gi * log_prob) - lgi)])
         } else Some res
       }) res"
  let ?I = "\<lambda>i (l :: real list). l = map (\<lambda>j. ?lg + (\<Sum>a<i. pmf_term lk af a (gs ! j ! a))) [0..<nat n]"
  have "\<exists>c. for_upto (length af) ?body (replicate (nat n) ?lg) = Some c \<and> ?I (length af) c"
  proof (rule for_upto_total [where I = ?I])
    show "?I 0 (replicate (nat n) ?lg)" by (auto intro!: nth_equalityI)
  next
    fix i b assume i: "i < length af" and b: "?I i b"
    have lb: "length b = nat n" using b by simp
    have "?body i b = Some (map (\<lambda>j. b ! j + pmf_term lk af i (gs ! j ! i)) [0..<nat n])"
      unfolding Let_def by (rule pmf_inner_loop [OF ok i lb])
    moreover have "?I (Suc i) (map (\<lambda>j. b ! j + pmf_term lk af i (gs ! j ! i)) [0..<nat n])"
      using b by (auto intro!: nth_equalityI)
    ultimately show "\<exists>c. ?body i b = Some c \<and> ?I (Suc i) c" by simp
  qed
  then show ?thesis
    unfolding calc_genotype_log_pmf_def using coi n by (auto simp: at_int_def)
qed

section \<open>The kernel computes the specification's formulas\<close>


lemma obs_term_spec:
  assumes "ob = 0 \<or> ob = 1" and "0 \<le> t"
  shows "obs_term en ep ob t = spec_emission ob t en ep"
  using assms by (auto simp: obs_term_def spec_emission_def)

lemma calc_obs_genotype_lliks_spec:
  assumes n: "0 \<le> n" "nat n \<le> length gs"
    and g: "\<forall>i<nat n. length (gs ! i) = length obs \<and> (\<forall>x\<in>set (gs ! i). 0 \<le> x)"
    and obs: "\<forall>ob\<in>set obs. ob = 0 \<or> ob = 1"
  shows "\<exists>lliks. calc_obs_genotype_lliks obs gs en ep n = Some lliks \<and> length lliks = length gs
           \<and> (\<forall>i<nat n. lliks ! i = spec_obs_llik obs (gs ! i) en ep)"
proof -
  have le: "\<forall>i<nat n. length (gs ! i) \<le> length obs" using g by simp
  have row: "(\<Sum>j<length (gs ! i). obs_term en ep (obs ! j) (gs ! i ! j)) = spec_obs_llik obs (gs ! i) en ep"
    if i: "i < nat n" for i
  proof -
    have l: "length (gs ! i) = length obs" and nn: "\<forall>x\<in>set (gs ! i). 0 \<le> x" using g i by auto
    have "obs_term en ep (obs ! j) (gs ! i ! j) = spec_emission (obs ! j) (gs ! i ! j) en ep"
      if "j < length obs" for j
      using that obs nn l by (intro obs_term_spec) auto
    then show ?thesis unfolding spec_obs_llik_def l by simp
  qed
  show ?thesis
    unfolding calc_obs_genotype_lliks_closed [OF n le] using n row by simp
qed

lemma nonneg_nth_le_sum_list:
  fixes xs :: "int list"
  assumes "\<forall>x\<in>set xs. 0 \<le> x" and "a < length xs"
  shows "xs ! a \<le> sum_list xs"
  using assms
proof (induction xs arbitrary: a)
  case Nil
  then show ?case by simp
next
  case (Cons x xs)
  have s: "0 \<le> sum_list xs" using Cons.prems(1) by (intro sum_list_nonneg) simp
  show ?case
  proof (cases a)
    case 0
    then show ?thesis using s by simp
  next
    case (Suc b)
    then have "xs ! b \<le> sum_list xs" using Cons by simp
    then show ?thesis using Suc Cons.prems(1) by simp
  qed
qed

lemma lnGamma_1: "lnGamma 1 = 0"
  by (simp add: lnGamma_def)

lemma pmf_term_spec:
  assumes tab: "lgamma_table_ok lk K" and g: "0 \<le> g" "nat g + 1 \<le> K"
  shows "pmf_term lk af a g = real_of_int g * ln (af ! a + 1 / 10 ^ 12) - lnGamma (g + 1)"
proof (cases "g = 0")
  case True
  then show ?thesis by (simp add: pmf_term_def lnGamma_1)
next
  case False
  then have pos: "0 < g" using g by simp
  have "nat (g + 1) = nat g + 1" using g by simp
  then have "lookup_lgamma lk ! nat (g + 1) = lnGamma (int (nat (g + 1)))"
    using tab g unfolding lgamma_table_ok_def by simp
  then show ?thesis using pos by (simp add: pmf_term_def)
qed

lemma counts_in_table:
  assumes tab: "lgamma_table_ok lk (nat coi + 1)" and n: "nat n \<le> length gs"
    and g: "\<forall>j<nat n. length (gs ! j) = A \<and> (\<forall>x\<in>set (gs ! j). 0 \<le> x \<and> x \<le> coi)"
  shows "genotypes_in_table lk gs (nat n) A"
  unfolding genotypes_in_table_def
proof (intro conjI allI impI)
  show "nat n \<le> length gs" by (rule n)
next
  fix j assume "j < nat n"
  then show "A \<le> length (gs ! j)" using g by simp
next
  fix j a assume j: "j < nat n" and a: "a < A" and pos: "0 < gs ! j ! a"
  have "gs ! j ! a \<in> set (gs ! j)" using g j a by simp
  then have "gs ! j ! a \<le> coi" using g j by blast
  then have "nat (gs ! j ! a + 1) \<le> nat coi + 1" using pos by simp
  then show "nat (gs ! j ! a + 1) < length (lookup_lgamma lk)"
    using tab unfolding lgamma_table_ok_def by simp
qed

lemma calc_genotype_log_pmf_spec:
  assumes table: "lgamma_table_ok lk (nat coi + 1)"
    and coi: "0 \<le> coi"
    and n: "0 \<le> n" "nat n \<le> length gs"
    and g: "\<forall>j<nat n. length (gs ! j) = length \<pi> \<and> (\<forall>x\<in>set (gs ! j). 0 \<le> x \<and> x \<le> coi)"
  shows "calc_genotype_log_pmf lk gs coi \<pi> n =
           Some (map (\<lambda>j. spec_multinomial_log_pmf coi (gs ! j) \<pi>) [0..<nat n])"
proof -
  have ok: "genotypes_in_table lk gs (nat n) (length \<pi>)"
    using counts_in_table [OF table n(2) g] .
  have c1: "0 \<le> coi + 1" "nat (coi + 1) < length (lookup_lgamma lk)"
    using coi table unfolding lgamma_table_ok_def by (simp_all add: nat_add_distrib)
  have lg: "lookup_lgamma lk ! nat (coi + 1) = lnGamma (coi + 1)"
  proof -
    have "nat (coi + 1) = nat coi + 1" using coi by simp
    then have "lookup_lgamma lk ! nat (coi + 1) = lnGamma (int (nat (coi + 1)))"
      using table unfolding lgamma_table_ok_def by simp
    then show ?thesis using coi by simp
  qed
  have row: "lookup_lgamma lk ! nat (coi + 1) + (\<Sum>a<length \<pi>. pmf_term lk \<pi> a (gs ! j ! a))
               = spec_multinomial_log_pmf coi (gs ! j) \<pi>" if j: "j < nat n" for j
  proof -
    have t: "pmf_term lk \<pi> a (gs ! j ! a)
               = real_of_int (gs ! j ! a) * ln (\<pi> ! a + 1 / 10 ^ 12) - lnGamma (gs ! j ! a + 1)"
      if a: "a < length \<pi>" for a
    proof -
      have "gs ! j ! a \<in> set (gs ! j)" using g j a by simp
      then have "0 \<le> gs ! j ! a" "gs ! j ! a \<le> coi" using g j by blast+
      then show ?thesis by (intro pmf_term_spec [OF table]) simp_all
    qed
    have "(\<Sum>a<length \<pi>. pmf_term lk \<pi> a (gs ! j ! a))
            = (\<Sum>a<length \<pi>. real_of_int (gs ! j ! a) * ln (\<pi> ! a + 1 / 10 ^ 12) - lnGamma (gs ! j ! a + 1))"
      using t by simp
    then show ?thesis unfolding spec_multinomial_log_pmf_def lg by (simp add: sum_subtractf)
  qed
  show ?thesis
    unfolding calc_genotype_log_pmf_closed [OF c1 n(1) ok] using row by simp
qed


lemma reweight_length:
  assumes "reweight_allele_frequencies af ob en ep = Some q" and "length af \<le> length ob"
  shows "length q = length af"
  using assms by (auto simp: reweight_closed)

lemma weight_sum_loop:
  assumes "n \<le> length xs" "n \<le> length ys" "n \<le> length zs"
  shows "for_upto n (\<lambda>i res. do {
        a \<leftarrow> nth_chk xs i;
        b \<leftarrow> nth_chk ys i;
        c \<leftarrow> nth_chk zs i;
        Some (res + exp (a + b - c))
      }) (0::real) = Some (\<Sum>d<n. exp (xs ! d + ys ! d - zs ! d))"
    (is "for_upto n ?body 0 = _")
proof -
  let ?I = "\<lambda>i (r::real). r = (\<Sum>d<i. exp (xs ! d + ys ! d - zs ! d))"
  have "\<exists>c. for_upto n ?body 0 = Some c \<and> ?I n c"
  proof (rule for_upto_total [where I = ?I])
    show "?I 0 0" by simp
  next
    fix i b assume "i < n" and "?I i b"
    then show "\<exists>c. ?body i b = Some c \<and> ?I (Suc i) c"
      using assms by (simp add: nth_chk_def)
  qed
  then show ?thesis by auto
qed


lemma lgamma_table_3:
  "lgamma_table_ok \<lparr>lookup_lgamma = [0, 0, 0, ln 2], lookup_sampling_depth = sd\<rparr> 3"
  unfolding lgamma_table_ok_def
proof (intro conjI allI impI)
  fix k :: nat assume "1 \<le> k \<and> k \<le> 3"
  then have "k = 1 \<or> k = 2 \<or> k = 3" by auto
  then show "lookup_lgamma \<lparr>lookup_lgamma = [0, 0, 0, ln 2], lookup_sampling_depth = sd\<rparr> ! k
               = lnGamma (int k)"
    by (auto simp: lnGamma_def fact_2 numeral_2_eq_2 numeral_3_eq_3)
qed simp

lemma counts_le_coi:
  assumes g: "\<forall>j<d. length (gs ! j) = A \<and> (\<forall>x\<in>set (gs ! j). 0 \<le> x) \<and> sum_list (gs ! j) = coi"
  shows "\<forall>j<d. length (gs ! j) = A \<and> (\<forall>x\<in>set (gs ! j). 0 \<le> (x::int) \<and> x \<le> coi)"
proof (intro allI impI conjI ballI)
  fix j x assume j: "j < d" and x: "x \<in> set (gs ! j)"
  show "0 \<le> x" using g j x by blast
  obtain a where "a < length (gs ! j)" "x = gs ! j ! a" using x by (auto simp: in_set_conv_nth)
  then show "x \<le> coi" using nonneg_nth_le_sum_list [of "gs ! j" a] g j by auto
next
  fix j assume "j < d"
  then show "length (gs ! j) = A" using g by simp
qed

section \<open>Frames of the update blocks\<close>


lemma caches_only_refl: "caches_only st st"
  unfolding caches_only_def
  by (rule exI [of _ "llik_old st"], rule exI [of _ "llik_new st"], rule exI [of _ "sampler_state st"]) simp

lemma caches_only_trans:
  assumes "caches_only a b" and "caches_only b c"
  shows "caches_only a c"
proof -
  from assms(1) obtain lo ln s where b: "b = a\<lparr>llik_old := lo, llik_new := ln, sampler_state := s\<rparr>"
    and l: "map length lo = map length (llik_old a)" "map length ln = map length (llik_new a)"
    unfolding caches_only_def by blast
  from assms(2) obtain lo' ln' s' where c: "c = b\<lparr>llik_old := lo', llik_new := ln', sampler_state := s'\<rparr>"
    and l': "map length lo' = map length (llik_old b)" "map length ln' = map length (llik_new b)"
    unfolding caches_only_def by blast
  have "c = a\<lparr>llik_old := lo', llik_new := ln', sampler_state := s'\<rparr>" using b c by simp
  moreover have "map length lo' = map length (llik_old a)" "map length ln' = map length (llik_new a)"
    using l l' b by simp_all
  ultimately show ?thesis unfolding caches_only_def by blast
qed

lemma caches_only_fields:
  assumes "caches_only st st'"
  shows "genotyping_data st' = genotyping_data st" "lookup st' = lookup st" "params st' = params st"
    "m_vec st' = m_vec st" "p_vec st' = p_vec st" "eps_pos st' = eps_pos st" "eps_neg st' = eps_neg st"
    "llik st' = llik st" "m_prop_mean st' = m_prop_mean st" "p_prop_var st' = p_prop_var st"
    "eps_pos_var st' = eps_pos_var st" "eps_neg_var st' = eps_neg_var st"
    "m_accept st' = m_accept st" "p_accept st' = p_accept st"
    "eps_pos_accept st' = eps_pos_accept st" "eps_neg_accept st' = eps_neg_accept st"
    "prop_p st' = prop_p st"
    "map length (llik_old st') = map length (llik_old st)"
    "map length (llik_new st') = map length (llik_new st)"
  using assms unfolding caches_only_def by auto

lemma map_length_eq_nth:
  assumes "map length xs = map length ys"
  shows "length xs = length ys" and "j < length ys \<Longrightarrow> length (xs ! j) = length (ys ! j)"
proof -
  show l: "length xs = length ys" using assms by (metis length_map)
  assume "j < length ys"
  then show "length (xs ! j) = length (ys ! j)" using assms l by (metis nth_map)
qed

lemma caches_only_shape:
  assumes c: "caches_only st st'" and s: "chain_shape st"
  shows "chain_shape st'"
proof -
  note f = caches_only_fields [OF c]
  have lo: "length (llik_old st') = length (llik_old st)"
    and ln: "length (llik_new st') = length (llik_new st)"
    using map_length_eq_nth(1) f(18,19) by blast+
  have lo_j: "length (llik_old st' ! j) = length (llik_old st ! j)" if "j < length (llik_old st)" for j
    using map_length_eq_nth(2) [OF f(18) that] .
  have ln_j: "length (llik_new st' ! j) = length (llik_new st ! j)" if "j < length (llik_new st)" for j
    using map_length_eq_nth(2) [OF f(19) that] .
  show ?thesis
    using s unfolding chain_shape_def Let_def f(1-17) lo ln
    by (auto simp: lo_j ln_j)
qed


lemma counts_in_table_len:
  assumes tab: "nat coi + 1 < length (lookup_lgamma lk)" and n: "nat n \<le> length gs"
    and g: "\<forall>j<nat n. length (gs ! j) = A \<and> (\<forall>x\<in>set (gs ! j). 0 \<le> x \<and> x \<le> coi)"
  shows "genotypes_in_table lk gs (nat n) A"
  unfolding genotypes_in_table_def
proof (intro conjI allI impI)
  show "nat n \<le> length gs" by (rule n)
next
  fix j assume "j < nat n"
  then show "A \<le> length (gs ! j)" using g by simp
next
  fix j a assume j: "j < nat n" and a: "a < A" and pos: "0 < gs ! j ! a"
  have "gs ! j ! a \<in> set (gs ! j)" using g j a by simp
  then have "gs ! j ! a \<le> coi" using g j by blast
  then have "nat (gs ! j ! a + 1) \<le> nat coi + 1" using pos by simp
  then show "nat (gs ! j ! a + 1) < length (lookup_lgamma lk)"
    using tab by simp
qed

lemma calc_genotype_marginal_llik_total:
  assumes draws: "genotype_draws_ok smp"
    and lk: "lookup_ok lk pr (length af)"
    and coi: "coi_ok pr coi"
    and af: "af \<noteq> []" "length obs = length af"
  shows "\<exists>r s'. calc_genotype_marginal_llik smp lk pr obs coi af en ep s = Some (r, s')"
proof -
  have c0: "0 \<le> coi" "1 \<le> coi" "coi \<le> max_coi pr" using coi by (simp_all add: coi_ok_def)
  have sd: "nat coi < length (lookup_sampling_depth lk)"
    "length af < length (lookup_sampling_depth lk ! nat coi)"
    "0 \<le> lookup_sampling_depth lk ! nat coi ! length af"
    "0 \<le> importance_sampling_depth pr"
    and lg: "nat coi + 1 < length (lookup_lgamma lk)"
    using lk c0 unfolding lookup_ok_def by auto
  define depth where "depth = min (importance_sampling_depth pr) (lookup_sampling_depth lk ! nat coi ! length af)"
  have d0: "0 \<le> depth" using sd(3,4) by (simp add: depth_def)
  let ?q = "map (\<lambda>k. reweight_raw af obs en ep k * (1 / (\<Sum>i<length af. reweight_raw af obs en ep i)))
              [0..<length af]"
  have q: "reweight_allele_frequencies af obs en ep = Some ?q"
    using af(2) by (simp add: reweight_closed)
  have qne: "?q \<noteq> []" and lq: "length ?q = length af" using af(1) by simp_all
  obtain gs s' where dr: "sample_genotype smp coi ?q depth s = (gs, s')" by (cases "sample_genotype smp coi ?q depth s")
  have gs: "nat depth \<le> length gs"
    "\<forall>d<nat depth. length (gs ! d) = length ?q \<and> (\<forall>x\<in>set (gs ! d). 0 \<le> x) \<and> sum_list (gs ! d) = coi"
    using draws c0(1) qne dr unfolding genotype_draws_ok_def Let_def
    by (metis fst_conv)+
  have g: "\<forall>d<nat depth. length (gs ! d) = length af \<and> (\<forall>x\<in>set (gs ! d). 0 \<le> x \<and> x \<le> coi)"
    using counts_le_coi [OF gs(2)] lq by simp
  have tab: "genotypes_in_table lk gs (nat depth) (length af)"
    by (rule counts_in_table_len [OF lg gs(1) g])
  have tabq: "genotypes_in_table lk gs (nat depth) (length ?q)"
    using tab lq by simp
  have c1: "0 \<le> coi + 1" "nat (coi + 1) < length (lookup_lgamma lk)"
    using c0 lg by (simp_all add: nat_add_distrib)
  note ip = calc_genotype_log_pmf_closed [OF c1 d0 tabq]
  note gp = calc_genotype_log_pmf_closed [OF c1 d0 tab]
  have le: "\<forall>i<nat depth. length (gs ! i) \<le> length obs" using g af(2) by simp
  note ol = calc_obs_genotype_lliks_closed [OF d0 gs(1) le, of en ep]
  let ?ip = "map (\<lambda>j. lookup_lgamma lk ! nat (coi + 1) + (\<Sum>a<length ?q. pmf_term lk ?q a (gs ! j ! a))) [0..<nat depth]"
  let ?gp = "map (\<lambda>j. lookup_lgamma lk ! nat (coi + 1) + (\<Sum>a<length af. pmf_term lk af a (gs ! j ! a))) [0..<nat depth]"
  let ?ol = "map (\<lambda>i. if i < nat depth then (\<Sum>j<length (gs ! i). obs_term en ep (obs ! j) (gs ! i ! j)) else 0) [0..<length gs]"
  have loop: "for_upto (nat depth) (\<lambda>i res. do {
        a \<leftarrow> nth_chk ?ol i;
        b \<leftarrow> nth_chk ?gp i;
        c \<leftarrow> nth_chk ?ip i;
        Some (res + exp (a + b - c))
      }) (0::real) = Some (\<Sum>d<nat depth. exp (?ol ! d + ?gp ! d - ?ip ! d))"
    using gs(1) by (intro weight_sum_loop) simp_all
  have row: "at_int (lookup_sampling_depth lk) coi = Some (lookup_sampling_depth lk ! nat coi)"
    using c0 sd(1) by (simp add: at_int_def)
  have cap: "nth_chk (lookup_sampling_depth lk ! nat coi) (length af)
               = Some (lookup_sampling_depth lk ! nat coi ! length af)"
    using sd(2) by (simp add: nth_chk_def)
  have "calc_genotype_marginal_llik smp lk pr obs coi af en ep s
          = Some (ln ((\<Sum>d<nat depth. exp (?ol ! d + ?gp ! d - ?ip ! d)) / real_of_int depth), s')"
    unfolding calc_genotype_marginal_llik_def
    by (simp only: Option.bind.simps Let_def row cap depth_def [symmetric] q dr prod.case ip gp ol loop)
  then show ?thesis by blast
qed


lemma chain_shape_sizes:
  assumes "chain_shape st"
  shows "length (observed_alleles (genotyping_data st)) = num_loci (genotyping_data st)"
    "length (p_vec st) = num_loci (genotyping_data st)"
    "length (p_prop_var st) = num_loci (genotyping_data st)"
    "length (p_accept st) = num_loci (genotyping_data st)"
    "length (llik_old st) = num_loci (genotyping_data st)"
    "length (llik_new st) = num_loci (genotyping_data st)"
    "length (m_vec st) = num_samples (genotyping_data st)"
    "length (m_prop_mean st) = num_samples (genotyping_data st)"
    "length (m_accept st) = num_samples (genotyping_data st)"
  using assms unfolding chain_shape_def Let_def by simp_all

lemma chain_shape_locus:
  assumes "chain_shape st" and "j < num_loci (genotyping_data st)"
  shows "length (observed_alleles (genotyping_data st) ! j) = num_samples (genotyping_data st)"
    "length (llik_old st ! j) = num_samples (genotyping_data st)"
    "length (llik_new st ! j) = num_samples (genotyping_data st)"
    "p_vec st ! j \<noteq> []"
    "lookup_ok (lookup st) (params st) (length (p_vec st ! j))"
    "i < num_samples (genotyping_data st) \<Longrightarrow>
       length (observed_alleles (genotyping_data st) ! j ! i) = length (p_vec st ! j)"
  using assms unfolding chain_shape_def Let_def by simp_all

lemma map_length_upd2:
  "map length (xss[j := (xss ! j)[i := x]]) = map length xss"
proof (rule nth_equalityI)
  show "length (map length (xss[j := (xss ! j)[i := x]])) = length (map length xss)" by simp
next
  fix k assume "k < length (map length (xss[j := (xss ! j)[i := x]]))"
  then have k: "k < length xss" by simp
  show "map length (xss[j := (xss ! j)[i := x]]) ! k = map length xss ! k"
    using k by (cases "k = j") simp_all
qed

lemma eval_cell_total:
  assumes shape: "chain_shape st" and draws: "genotype_draws_ok smp"
    and j: "j < num_loci (genotyping_data st)" and i: "i < num_samples (genotyping_data st)"
    and coi: "coi_ok (params st) coi"
    and af: "length af = length (p_vec st ! j)"
  shows "\<exists>st' sc' so'. eval_cell smp j i coi af en ep (st, sc, so) = Some (st', sc', so')
           \<and> caches_only st st'"
proof -
  note sz = chain_shape_sizes [OF shape]
  note lc = chain_shape_locus [OF shape j]
  let ?obs = "observed_alleles (genotyping_data st) ! j ! i"
  have o1: "nth_chk (observed_alleles (genotyping_data st)) j = Some (observed_alleles (genotyping_data st) ! j)"
    using j sz(1) by (simp add: nth_chk_def)
  have o2: "nth_chk (observed_alleles (genotyping_data st) ! j) i = Some ?obs"
    using i lc(1) by (simp add: nth_chk_def)
  have "af \<noteq> []" using af lc(4) by auto
  moreover have "length ?obs = length af" using lc(6) [OF i] af by simp
  moreover have "lookup_ok (lookup st) (params st) (length af)" using lc(5) af by simp
  ultimately obtain v s' where
    k: "calc_genotype_marginal_llik smp (lookup st) (params st) ?obs coi af en ep (sampler_state st) = Some (v, s')"
    using calc_genotype_marginal_llik_total [OF draws _ coi] by blast
  let ?ln = "(llik_new st)[j := (llik_new st ! j)[i := v]]"
  have u: "upd2_chk (llik_new st) j i v = Some ?ln"
    using j i sz(6) lc(3) by (simp add: upd2_chk_def upd_chk_def nth_chk_def)
  have r: "nth2_chk (llik_old st) j i = Some (llik_old st ! j ! i)"
    using j i sz(5) lc(2) by (simp add: nth2_chk_def nth_chk_def)
  have e: "eval_cell smp j i coi af en ep (st, sc, so)
             = Some (st\<lparr>llik_new := ?ln, sampler_state := s'\<rparr>, sc + v, so + llik_old st ! j ! i)"
    unfolding eval_cell_def by (simp add: o1 o2 k u r)
  have "caches_only st (st\<lparr>llik_new := ?ln, sampler_state := s'\<rparr>)"
    unfolding caches_only_def
    by (rule exI [of _ "llik_old st"], rule exI [of _ ?ln], rule exI [of _ s'])
       (simp add: map_length_upd2)
  with e show ?thesis by blast
qed

lemma commit_cell_total:
  assumes shape: "chain_shape st"
    and j: "j < num_loci (genotyping_data st)" and i: "i < num_samples (genotyping_data st)"
  shows "\<exists>st'. commit_cell j i st = Some st' \<and> caches_only st st'"
proof -
  note sz = chain_shape_sizes [OF shape]
  note lc = chain_shape_locus [OF shape j]
  let ?v = "llik_new st ! j ! i"
  let ?lo = "(llik_old st)[j := (llik_old st ! j)[i := ?v]]"
  have r: "nth2_chk (llik_new st) j i = Some ?v"
    using j i sz(6) lc(3) by (simp add: nth2_chk_def nth_chk_def)
  have u: "upd2_chk (llik_old st) j i ?v = Some ?lo"
    using j i sz(5) lc(2) by (simp add: upd2_chk_def upd_chk_def nth_chk_def)
  have e: "commit_cell j i st = Some (st\<lparr>llik_old := ?lo\<rparr>)"
    unfolding commit_cell_def by (simp add: r u)
  have "caches_only st (st\<lparr>llik_old := ?lo\<rparr>)"
    unfolding caches_only_def
    by (rule exI [of _ ?lo], rule exI [of _ "llik_new st"], rule exI [of _ "sampler_state st"])
       (simp add: map_length_upd2)
  with e show ?thesis by blast
qed

text \<open>A loop over chains whose body changes the caches only.\<close>

lemma for_upto_caches:
  assumes shape: "chain_shape st"
    and body: "\<And>i b. i < n \<Longrightarrow> chain_shape b \<Longrightarrow> caches_only st b
                 \<Longrightarrow> \<exists>c. body i b = Some c \<and> caches_only b c"
  shows "\<exists>c. for_upto n body st = Some c \<and> caches_only st c"
proof (rule for_upto_total [where I = "\<lambda>i b. caches_only st b"])
  show "caches_only st st" by (rule caches_only_refl)
next
  fix i b assume i: "i < n" and b: "caches_only st b"
  have "chain_shape b" using caches_only_shape [OF b shape] .
  then obtain c where "body i b = Some c" "caches_only b c" using body [OF i _ b] by blast
  then show "\<exists>c. body i b = Some c \<and> caches_only st c"
    using caches_only_trans [OF b] by blast
qed

text \<open>The same for the loops that carry the two running sums along.\<close>

lemma for_upto_caches_sums:
  fixes body :: "nat \<Rightarrow> 's chain \<times> real \<times> real \<Rightarrow> ('s chain \<times> real \<times> real) option"
  assumes shape: "chain_shape st"
    and body: "\<And>i b sc so. i < n \<Longrightarrow> chain_shape b \<Longrightarrow> caches_only st b
                 \<Longrightarrow> \<exists>c sc' so'. body i (b, sc, so) = Some (c, sc', so') \<and> caches_only b c"
  shows "\<exists>c sc' so'. for_upto n body (st, sc0, so0) = Some (c, sc', so') \<and> caches_only st c"
proof -
  have "\<exists>x. for_upto n body (st, sc0, so0) = Some x \<and> caches_only st (fst x)"
  proof (rule for_upto_total [where I = "\<lambda>i (x :: 's chain \<times> real \<times> real). caches_only st (fst x)"])
    show "caches_only st (fst (st, sc0, so0))" by (simp add: caches_only_refl)
  next
    fix i and x :: "'s chain \<times> real \<times> real" assume i: "i < n" and b: "caches_only st (fst x)"
    obtain b' sc so where x: "x = (b', sc, so)" by (cases x)
    have cb: "caches_only st b'" using b x by simp
    have "chain_shape b'" using caches_only_shape [OF cb shape] .
    then obtain c sc' so' where "body i (b', sc, so) = Some (c, sc', so')" "caches_only b' c"
      using body [OF i _ cb] by blast
    then show "\<exists>c. body i x = Some c \<and> caches_only st (fst c)"
      using caches_only_trans [OF cb] x by auto
  qed
  then show ?thesis by (metis prod.collapse)
qed



lemma m_cells_total:
  assumes shape: "chain_shape st" and draws: "genotype_draws_ok smp"
    and i: "i < num_samples (genotyping_data st)" and coi: "coi_ok (params st) c"
  shows "\<exists>st' sc so. for_upto (num_loci (genotyping_data st)) (\<lambda>j (st, sum_can, sum_orig). do {
          p_j \<leftarrow> nth_chk (p_vec st) j;
          eval_cell smp j i c p_j (eps_neg st) (eps_pos st) (st, sum_can, sum_orig)
        }) (st, 0, 0) = Some (st', sc, so) \<and> caches_only st st'"
proof (rule for_upto_caches_sums [OF shape])
  fix j b and sc so :: real
  assume j: "j < num_loci (genotyping_data st)" and sb: "chain_shape b" and cb: "caches_only st b"
  note f = caches_only_fields [OF cb]
  have jb: "j < num_loci (genotyping_data b)" and ib: "i < num_samples (genotyping_data b)"
    and cc: "coi_ok (params b) c"
    using j i coi f by simp_all
  have r: "nth_chk (p_vec b) j = Some (p_vec b ! j)"
    using jb chain_shape_sizes(2) [OF sb] by (simp add: nth_chk_def)
  obtain st' sc' so' where "eval_cell smp j i c (p_vec b ! j) (eps_neg b) (eps_pos b) (b, sc, so) = Some (st', sc', so')"
    and "caches_only b st'"
    using eval_cell_total [OF sb draws jb ib cc refl] by blast
  then show "\<exists>ca sc' so'. (case (b, sc, so) of (st, sum_can, sum_orig) \<Rightarrow> do {
          p_j \<leftarrow> nth_chk (p_vec st) j;
          eval_cell smp j i c p_j (eps_neg st) (eps_pos st) (st, sum_can, sum_orig)
        }) = Some (ca, sc', so') \<and> caches_only b ca"
    using r by simp
qed



lemma commit_column_total:
  assumes shape: "chain_shape st" and i: "i < num_samples (genotyping_data st)"
  shows "\<exists>st'. for_upto (num_loci (genotyping_data st)) (\<lambda>j st. commit_cell j i st) st = Some st'
           \<and> caches_only st st'"
proof (rule for_upto_caches [OF shape])
  fix j b
  assume j: "j < num_loci (genotyping_data st)" and sb: "chain_shape b" and cb: "caches_only st b"
  have "j < num_loci (genotyping_data b)" "i < num_samples (genotyping_data b)"
    using j i caches_only_fields(1) [OF cb] by simp_all
  then show "\<exists>c. commit_cell j i b = Some c \<and> caches_only b c"
    by (rule commit_cell_total [OF sb])
qed



section \<open>The update blocks return and keep the chain well-formed\<close>


lemma update_m_sample_total:
  assumes shape: "chain_shape st" and draws: "genotype_draws_ok smp"
    and i: "i < num_samples (genotyping_data st)"
  shows "\<exists>st'. update_m_sample smp it i st = Some st' \<and> chain_shape st'
           \<and> genotyping_data st' = genotyping_data st \<and> params st' = params st
           \<and> (\<forall>k. coi_ok (params st) (m_vec st ! k) \<longrightarrow> coi_ok (params st) (m_vec st' ! k))"
proof -
  let ?P = "\<lambda>st'. chain_shape st'
           \<and> genotyping_data st' = genotyping_data st \<and> params st' = params st
           \<and> (\<forall>k. coi_ok (params st) (m_vec st ! k) \<longrightarrow> coi_ok (params st) (m_vec st' ! k))"
  note sz = chain_shape_sizes [OF shape]
  let ?mean = "m_prop_mean st ! i" and ?m = "m_vec st ! i"
  have r1: "nth_chk (m_prop_mean st) i = Some ?mean" and r2: "nth_chk (m_vec st) i = Some ?m"
    and r3: "nth_chk (m_accept st) i = Some (m_accept st ! i)"
    using i sz by (simp_all add: nth_chk_def)
  obtain delta s1 where d: "sample_coi_delta smp ?mean (sampler_state st) = (delta, s1)"
    by (cases "sample_coi_delta smp ?mean (sampler_state st)")
  let ?cand = "delta + ?m"
  let ?st1 = "st\<lparr>sampler_state := s1\<rparr>"
  have c1: "caches_only st ?st1"
    unfolding caches_only_def
    by (rule exI [of _ "llik_old st"], rule exI [of _ "llik_new st"], rule exI [of _ s1]) simp
  have sh1: "chain_shape ?st1" using caches_only_shape [OF c1 shape] .
  note f1 = caches_only_fields [OF c1]
  consider (same) "?cand = ?m" | (range) "?cand \<noteq> ?m" "max_coi (params st) \<ge> ?cand \<and> ?cand > 0"
    | (out) "?cand \<noteq> ?m" "\<not> (max_coi (params st) \<ge> ?cand \<and> ?cand > 0)" by blast
  then show ?thesis
  proof cases
    case same
    let ?st' = "?st1\<lparr>m_prop_mean := (m_prop_mean ?st1)[i := ?mean + (1 - 23 / 100) / sqrt (real_of_int it)],
                m_accept := (m_accept ?st1)[i := m_accept st ! i + 1]\<rparr>"
    have "update_m_sample smp it i st = Some ?st'"
      unfolding update_m_sample_def using same
      by (simp add: r1 r2 r3 d Let_def)
    moreover have "?P ?st'"
      using sh1 by (simp add: chain_shape_def Let_def)
    ultimately show ?thesis by blast
  next
    case out
    have "update_m_sample smp it i st = Some ?st1"
      unfolding update_m_sample_def using out
      by (auto simp: r1 r2 d Let_def)
    moreover have "?P ?st1" using sh1 f1 by simp
    ultimately show ?thesis by blast
  next
    case range
    have ck: "coi_ok (params ?st1) ?cand" using range(2) f1 by (simp add: coi_ok_def)
    have i1: "i < num_samples (genotyping_data ?st1)" using i f1 by simp
    obtain st2 sc so where l2: "for_upto (num_loci (genotyping_data ?st1)) (\<lambda>j (st, sum_can, sum_orig). do {
          p_j \<leftarrow> nth_chk (p_vec st) j;
          eval_cell smp j i ?cand p_j (eps_neg st) (eps_pos st) (st, sum_can, sum_orig)
        }) (?st1, 0, 0) = Some (st2, sc, so)" and c2: "caches_only ?st1 st2"
      using m_cells_total [OF sh1 draws i1 ck] by blast
    have c02: "caches_only st st2" using caches_only_trans [OF c1 c2] .
    note f2 = caches_only_fields [OF c02]
    have sh2: "chain_shape st2" using caches_only_shape [OF c02 shape] .
    obtain logu s2 where u: "sample_log_mh_acceptance smp (sampler_state st2) = (logu, s2)"
      by (cases "sample_log_mh_acceptance smp (sampler_state st2)")
    let ?st3 = "st2\<lparr>sampler_state := s2\<rparr>"
    have r3': "nth_chk (m_accept st2) i = Some (m_accept st ! i)"
      using r3 f2 by simp
    have sh3: "chain_shape ?st3" using sh2 by (simp add: chain_shape_def Let_def)
    show ?thesis
    proof (cases "logu \<le> sc - so")
      case False
      let ?v = "?mean - (23 / 100) / sqrt (real_of_int it)"
      let ?st' = "?st3\<lparr>m_prop_mean := (m_prop_mean ?st3)[i := (if ?v < 0 then 0 else ?v)]\<rparr>"
      have "update_m_sample smp it i st = Some ?st'"
        unfolding update_m_sample_def using range False l2
        by (simp add: r1 r2 d u Let_def f1)
      moreover have "?P ?st'"
        using sh3 f2 by (simp add: chain_shape_def Let_def)
      ultimately show ?thesis by blast
    next
      case True
      let ?st4 = "?st3\<lparr>m_vec := (m_vec ?st3)[i := ?cand],
                     m_prop_mean := (m_prop_mean ?st3)[i := ?mean + (1 - 23 / 100) / sqrt (real_of_int it)],
                     m_accept := (m_accept ?st3)[i := m_accept st ! i + 1]\<rparr>"
      have sh4: "chain_shape ?st4" using sh3 by (simp add: chain_shape_def Let_def)
      have i4: "i < num_samples (genotyping_data ?st4)" using i f2 by simp
      obtain st5 where l5: "for_upto (num_loci (genotyping_data ?st4)) (\<lambda>j st. commit_cell j i st) ?st4 = Some st5"
        and c5: "caches_only ?st4 st5"
        using commit_column_total [OF sh4 i4] by blast
      note f5 = caches_only_fields [OF c5]
      have "update_m_sample smp it i st = Some st5"
        unfolding update_m_sample_def using range True l2 l5
        by (simp add: r1 r2 d u r3'
              Let_def f1)
      moreover have "?P st5"
      proof (intro conjI allI impI)
        show "chain_shape st5" using caches_only_shape [OF c5 sh4] .
        show "genotyping_data st5 = genotyping_data st" "params st5 = params st"
          using f5 f2 by simp_all
        fix k assume k: "coi_ok (params st) (m_vec st ! k)"
        have "m_vec st5 = (m_vec st)[i := ?cand]" using f5 f2 by simp
        moreover have "coi_ok (params st) ?cand" using ck f1 by simp
        ultimately show "coi_ok (params st) (m_vec st5 ! k)"
          using k i sz(7) by (cases "k = i") simp_all
      qed
      ultimately show ?thesis by blast
    qed
  qed
qed


lemma update_m_sample_out_of_range:
  assumes shape: "chain_shape st" and i: "i < num_samples (genotyping_data st)"
    and d: "sample_coi_delta smp (m_prop_mean st ! i) (sampler_state st) = (delta, s1)"
    and inb: "coi_ok (params st) (m_vec st ! i)"
    and out: "\<not> coi_ok (params st) (delta + m_vec st ! i)"
  shows "update_m_sample smp it i st = Some (st\<lparr>sampler_state := s1\<rparr>)"
proof -
  note sz = chain_shape_sizes [OF shape]
  have r1: "nth_chk (m_prop_mean st) i = Some (m_prop_mean st ! i)"
    and r2: "nth_chk (m_vec st) i = Some (m_vec st ! i)"
    using i sz by (simp_all add: nth_chk_def)
  have ne: "delta + m_vec st ! i \<noteq> m_vec st ! i" using inb out by auto
  have o: "\<not> (max_coi (params st) \<ge> delta + m_vec st ! i \<and> delta + m_vec st ! i > 0)"
    using out by (auto simp: coi_ok_def)
  show ?thesis
    unfolding update_m_sample_def using ne o
    by (auto simp: r1 r2 d Let_def)
qed

lemma update_m_total:
  fixes st :: "'s chain"
  assumes shape: "chain_shape st" and draws: "genotype_draws_ok smp"
  shows "\<exists>st'. update_m smp it st = Some st' \<and> chain_shape st'
           \<and> genotyping_data st' = genotyping_data st \<and> params st' = params st
           \<and> (\<forall>k. coi_ok (params st) (m_vec st ! k) \<longrightarrow> coi_ok (params st) (m_vec st' ! k))"
  unfolding update_m_def
proof (rule for_upto_total [where I = "\<lambda>i (b :: 's chain). chain_shape b
           \<and> genotyping_data b = genotyping_data st \<and> params b = params st
           \<and> (\<forall>k. coi_ok (params st) (m_vec st ! k) \<longrightarrow> coi_ok (params st) (m_vec b ! k))"])
  show "chain_shape st \<and> genotyping_data st = genotyping_data st \<and> params st = params st
           \<and> (\<forall>k. coi_ok (params st) (m_vec st ! k) \<longrightarrow> coi_ok (params st) (m_vec st ! k))"
    using shape by simp
next
  fix i and b :: "'s chain"
  assume i: "i < num_samples (genotyping_data st)"
    and b: "chain_shape b \<and> genotyping_data b = genotyping_data st \<and> params b = params st
           \<and> (\<forall>k. coi_ok (params st) (m_vec st ! k) \<longrightarrow> coi_ok (params st) (m_vec b ! k))"
  have ib: "i < num_samples (genotyping_data b)" using i b by simp
  obtain c where c: "update_m_sample smp it i b = Some c" "chain_shape c"
    "genotyping_data c = genotyping_data b" "params c = params b"
    "\<forall>k. coi_ok (params b) (m_vec b ! k) \<longrightarrow> coi_ok (params b) (m_vec c ! k)"
    using update_m_sample_total [OF _ draws ib, of it] b by blast
  show "\<exists>c. update_m_sample smp it i b = Some c \<and> (chain_shape c
           \<and> genotyping_data c = genotyping_data st \<and> params c = params st
           \<and> (\<forall>k. coi_ok (params st) (m_vec st ! k) \<longrightarrow> coi_ok (params st) (m_vec c ! k)))"
    using c b by auto
qed







lemma calculate_llik_row:
  fixes b :: "'s chain"
  assumes j: "j < length (llik_old b)" and n: "n \<le> length (llik_old b ! j)"
  shows "for_upto n (\<lambda>i st. do {
         v \<leftarrow> nth2_chk (llik_old st) j i;
         Some (st\<lparr>llik := llik st + v\<rparr>)
       }) b = Some (b\<lparr>llik := llik b + (\<Sum>i<n. llik_old b ! j ! i)\<rparr>)"
    (is "for_upto n ?body b = _")
proof -
  let ?I = "\<lambda>i (x :: 's chain). x = b\<lparr>llik := llik b + (\<Sum>k<i. llik_old b ! j ! k)\<rparr>"
  have "\<exists>c. for_upto n ?body b = Some c \<and> ?I n c"
  proof (rule for_upto_total [where I = ?I])
    show "?I 0 b" by simp
  next
    fix i and x :: "'s chain" assume "i < n" and "?I i x"
    then show "\<exists>c. ?body i x = Some c \<and> ?I (Suc i) c"
      using j n by (simp add: nth2_chk_def nth_chk_def add.assoc)
  qed
  then show ?thesis by auto
qed

lemma calculate_llik_closed:
  fixes st :: "'s chain"
  assumes rows: "num_loci (genotyping_data st) \<le> length (llik_old st)"
    and cols: "\<forall>j<num_loci (genotyping_data st). num_samples (genotyping_data st) \<le> length (llik_old st ! j)"
  shows "calculate_llik st = Some (st\<lparr>llik :=
           (\<Sum>j<num_loci (genotyping_data st). \<Sum>i<num_samples (genotyping_data st). llik_old st ! j ! i)\<rparr>)"
proof -
  let ?L = "num_loci (genotyping_data st)" and ?N = "num_samples (genotyping_data st)"
  let ?body = "\<lambda>j st. for_upto (num_samples (genotyping_data st)) (\<lambda>i st. do {
         v \<leftarrow> nth2_chk (llik_old st) j i;
         Some (st\<lparr>llik := llik st + v\<rparr>)
       }) st"
  let ?I = "\<lambda>j (x :: 's chain). x = st\<lparr>llik := (\<Sum>k<j. \<Sum>i<?N. llik_old st ! k ! i)\<rparr>"
  have "\<exists>c. for_upto ?L ?body (st\<lparr>llik := 0\<rparr>) = Some c \<and> ?I ?L c"
  proof (rule for_upto_total [where I = ?I])
    show "?I 0 (st\<lparr>llik := 0\<rparr>)" by simp
  next
    fix j and x :: "'s chain" assume j: "j < ?L" and x: "?I j x"
    have jx: "j < length (llik_old x)" and nx: "num_samples (genotyping_data x) \<le> length (llik_old x ! j)"
      using j x rows cols by simp_all
    show "\<exists>c. ?body j x = Some c \<and> ?I (Suc j) c"
      unfolding calculate_llik_row [OF jx nx] using x by simp
  qed
  then show ?thesis unfolding calculate_llik_def by auto
qed

lemma fixed_sampler_genotypes:
  "genotype_draws_ok (fixed_sampler \<delta> e u)"
  unfolding genotype_draws_ok_def
proof (intro allI impI)
  fix coi :: int and q :: "real list" and n :: int and s :: nat
  assume a: "0 \<le> coi \<and> q \<noteq> []"
  then have "length q - 1 + 1 = length q" by (cases q) simp_all
  then show "let gs = fst (sample_genotype (fixed_sampler \<delta> e u) coi q n s)
         in nat n \<le> length gs \<and>
            (\<forall>d<nat n. length (gs ! d) = length q \<and> (\<forall>x\<in>set (gs ! d). 0 \<le> x)
                          \<and> sum_list (gs ! d) = coi)"
    using a by (auto simp: fixed_sampler_def Let_def sum_list_replicate)
qed


lemma example_lookup_ok:
  "lookup_ok (lookup example_chain) (params example_chain) 2"
  unfolding lookup_ok_def
proof (intro conjI allI impI)
  fix c :: int assume "1 \<le> c \<and> c \<le> max_coi (params example_chain)"
  then have c: "c = 1 \<or> c = 2" by (auto simp: example_chain_def example_params_def)
  from c show "2 < length (lookup_sampling_depth (lookup example_chain) ! nat c)"
    by (auto simp: example_chain_def example_lookup_def)
  from c show "0 \<le> lookup_sampling_depth (lookup example_chain) ! nat c ! 2"
    by (auto simp: example_chain_def example_lookup_def numeral_2_eq_2)
qed (simp_all add: example_chain_def example_lookup_def example_params_def)

lemma example_chain_shape: "chain_shape example_chain"
  using example_lookup_ok
  by (simp add: chain_shape_def Let_def example_chain_def example_data_def numeral_2_eq_2)


section \<open>Concrete runs\<close>


lemma example_reweight:
  "reweight_allele_frequencies [1/2, 1/2] [1, 0] (1/10) (1/100)
     = Some [460001 / 520002, 60001 / 520002]"
  by (simp add: reweight_closed reweight_raw_def lessThan_Suc numeral_2_eq_2 upt_rec [of 0])










section \<open>The empirical allele frequencies\<close>


lemma count_first_sample:
  assumes i: "i < length tla" "i < length ta" and e: "tla ! i = []"
  shows "for_upto (length g) (count_allele i 0 g) (tla, ta)
           = Some (tla[i := g], ta[i := ta ! i + sum_list g])"
proof -
  let ?I = "\<lambda>k (x :: int list list \<times> int list).
              x = (tla[i := take k g], ta[i := ta ! i + sum_list (take k g)])"
  have "\<exists>c. for_upto (length g) (count_allele i 0 g) (tla, ta) = Some c \<and> ?I (length g) c"
  proof (rule for_upto_total [where I = ?I])
    have "tla[i := tla ! i] = tla" by (rule list_update_id)
    then have "tla[i := []] = tla" unfolding e .
    then show "?I 0 (tla, ta)" by simp
  next
    fix k and x :: "int list list \<times> int list"
    assume k: "k < length g" and x: "?I k x"
    have u: "(take k g @ [0])[k := g ! k] = take k g @ [g ! k]"
      using k by (simp add: list_update_append)
    have "count_allele i 0 g k x
            = Some (tla[i := take (Suc k) g], ta[i := ta ! i + sum_list (take (Suc k) g)])"
      using i k x
      by (simp add: count_allele_def nth_chk_def nth_append take_Suc_conv_app_nth add.assoc u)
    then show "\<exists>c. count_allele i 0 g k x = Some c \<and> ?I (Suc k) c" by simp
  qed
  then show ?thesis by simp
qed

lemma count_later_sample:
  assumes i: "i < length tla" "i < length ta" and j: "0 < j" and l: "length (tla ! i) = length g"
  shows "for_upto (length g) (count_allele i j g) (tla, ta)
           = Some (tla[i := map (\<lambda>k. tla ! i ! k + g ! k) [0..<length g]], ta[i := ta ! i + sum_list g])"
proof -
  let ?I = "\<lambda>k (x :: int list list \<times> int list).
              x = (tla[i := map (\<lambda>k'. tla ! i ! k' + (if k' < k then g ! k' else 0)) [0..<length g]],
                   ta[i := ta ! i + sum_list (take k g)])"
  have "\<exists>c. for_upto (length g) (count_allele i j g) (tla, ta) = Some c \<and> ?I (length g) c"
  proof (rule for_upto_total [where I = ?I])
    have "map (\<lambda>k'. tla ! i ! k' + (if k' < 0 then g ! k' else 0)) [0..<length g] = tla ! i"
      using l by (auto intro!: nth_equalityI)
    then show "?I 0 (tla, ta)" by (simp add: list_update_same_conv [THEN iffD2])
  next
    fix k and x :: "int list list \<times> int list"
    assume k: "k < length g" and x: "?I k x"
    have "(map (\<lambda>k'. tla ! i ! k' + (if k' < k then g ! k' else 0)) [0..<length g])
             [k := tla ! i ! k + g ! k]
           = map (\<lambda>k'. tla ! i ! k' + (if k' < Suc k then g ! k' else 0)) [0..<length g]"
      using k by (auto intro!: nth_equalityI simp: nth_list_update less_Suc_eq)
    then have "count_allele i j g k x
            = Some (tla[i := map (\<lambda>k'. tla ! i ! k' + (if k' < Suc k then g ! k' else 0)) [0..<length g]],
                    ta[i := ta ! i + sum_list (take (Suc k) g)])"
      using i j k x
      by (simp add: count_allele_def nth_chk_def take_Suc_conv_app_nth add.assoc)
    then show "\<exists>c. count_allele i j g k x = Some c \<and> ?I (Suc k) c" by simp
  qed
  moreover have "map (\<lambda>k'. tla ! i ! k' + (if k' < length g then g ! k' else 0)) [0..<length g]
                   = map (\<lambda>k. tla ! i ! k + g ! k) [0..<length g]"
    by (rule map_cong) simp_all
  ultimately show ?thesis by simp
qed


lemma count_locus_closed:
  assumes i: "i < length tla" "i < length ta" and e: "tla ! i = []"
    and ne: "rows \<noteq> []" and rect: "\<forall>g\<in>set rows. length g = A"
  shows "count_locus i rows (tla, ta)
           = Some (tla[i := map (\<lambda>k. \<Sum>j<length rows. rows ! j ! k) [0..<A]],
                   ta[i := ta ! i + (\<Sum>j<length rows. sum_list (rows ! j))])"
proof -
  define col where "col j = (if j = 0 then [] else map (\<lambda>k. \<Sum>j'<j. rows ! j' ! k) [0..<A])" for j
  let ?I = "\<lambda>j (x :: int list list \<times> int list).
              x = (tla[i := col j], ta[i := ta ! i + (\<Sum>j'<j. sum_list (rows ! j'))])"
  let ?body = "\<lambda>j acc. let genotype = rows ! j
       in for_upto (length genotype) (count_allele i j genotype) acc"
  have "\<exists>c. for_upto (length rows) ?body (tla, ta) = Some c \<and> ?I (length rows) c"
  proof (rule for_upto_total [where I = ?I])
    have "tla[i := tla ! i] = tla" "ta[i := ta ! i] = ta" by (rule list_update_id)+
    then show "?I 0 (tla, ta)" unfolding e by (simp add: col_def)
  next
    fix j and x :: "int list list \<times> int list"
    assume j: "j < length rows" and x: "?I j x"
    let ?g = "rows ! j"
    have lg: "length ?g = A" using rect j by simp
    let ?tla = "tla[i := col j]" and ?ta = "ta[i := ta ! i + (\<Sum>j'<j. sum_list (rows ! j'))]"
    have i': "i < length ?tla" "i < length ?ta" using i by simp_all
    have "for_upto (length ?g) (count_allele i j ?g) (?tla, ?ta)
            = Some (tla[i := col (Suc j)], ta[i := ta ! i + (\<Sum>j'<Suc j. sum_list (rows ! j'))])"
    proof (cases "j = 0")
      case True
      have "?tla ! i = []" using i True by (simp add: col_def)
      then have "for_upto (length ?g) (count_allele i 0 ?g) (?tla, ?ta)
              = Some (?tla[i := ?g], ?ta[i := ?ta ! i + sum_list ?g])"
        by (rule count_first_sample [OF i'])
      moreover have "col (Suc j) = ?g"
        using True lg by (auto simp: col_def intro!: nth_equalityI)
      ultimately show ?thesis using True i by simp
    next
      case False
      then have j0: "0 < j" by simp
      have l: "length (?tla ! i) = length ?g" using i False lg by (simp add: col_def)
      have "map (\<lambda>k. ?tla ! i ! k + ?g ! k) [0..<length ?g] = col (Suc j)"
        using i False lg by (auto simp: col_def intro!: nth_equalityI)
      then show ?thesis
        using count_later_sample [OF i' j0 l] i by (simp add: add.assoc)
    qed
    then show "\<exists>c. ?body j x = Some c \<and> ?I (Suc j) c" using x by (simp add: Let_def)
  qed
  moreover have "col (length rows) = map (\<lambda>k. \<Sum>j<length rows. rows ! j ! k) [0..<A]"
    using ne by (simp add: col_def)
  ultimately show ?thesis unfolding count_locus_def by simp
qed

lemma frequencies_locus_closed:
  assumes i: "i < length tla" "i < length ta" "i < length p"
    and n: "n \<le> length (tla ! i)" "length (p ! i) = n"
  shows "frequencies_locus i n tla ta p
           = Some (p[i := map (\<lambda>k. int_div_double (tla ! i ! k) (ta ! i)) [0..<n]])"
proof -
  let ?I = "\<lambda>j (x :: xdouble list list).
              x = p[i := map (\<lambda>k. if k < j then int_div_double (tla ! i ! k) (ta ! i) else p ! i ! k) [0..<n]]"
  let ?body = "\<lambda>j p. do {
       row \<leftarrow> nth_chk tla i;
       c \<leftarrow> nth_chk row j;
       t \<leftarrow> nth_chk ta i;
       p_i \<leftarrow> nth_chk p i;
       p_i' \<leftarrow> upd_chk p_i j (int_div_double c t);
       Some (p[i := p_i'])
     }"
  have "\<exists>c. for_upto n ?body p = Some c \<and> ?I n c"
  proof (rule for_upto_total [where I = ?I])
    have "map (\<lambda>k. if k < 0 then int_div_double (tla ! i ! k) (ta ! i) else p ! i ! k) [0..<n] = p ! i"
      using n(2) by (auto intro!: nth_equalityI)
    then show "?I 0 p" by simp
  next
    fix j and x :: "xdouble list list"
    assume j: "j < n" and x: "?I j x"
    have "(map (\<lambda>k. if k < j then int_div_double (tla ! i ! k) (ta ! i) else p ! i ! k) [0..<n])
             [j := int_div_double (tla ! i ! j) (ta ! i)]
           = map (\<lambda>k. if k < Suc j then int_div_double (tla ! i ! k) (ta ! i) else p ! i ! k) [0..<n]"
      using j by (auto intro!: nth_equalityI simp: nth_list_update less_Suc_eq)
    then show "\<exists>c. ?body j x = Some c \<and> ?I (Suc j) c"
      using i n j x by (simp add: nth_chk_def upd_chk_def)
  qed
  moreover have "map (\<lambda>k. if k < n then int_div_double (tla ! i ! k) (ta ! i) else p ! i ! k) [0..<n]
                   = map (\<lambda>k. int_div_double (tla ! i ! k) (ta ! i)) [0..<n]"
    by (rule map_cong) simp_all
  ultimately show ?thesis unfolding frequencies_locus_def by simp
qed


lemma initialize_p_closed:
  assumes ok: "data_ok gd"
  shows "initialize_p gd
           = Some (map (\<lambda>i. map (\<lambda>k. int_div_double (allele_count gd i k) (allele_total gd i))
                              [0..<nat (num_alleles gd ! i)]) [0..<num_loci gd])"
proof -
  let ?L = "num_loci gd"
  let ?row = "\<lambda>i. map (\<lambda>k. int_div_double (allele_count gd i k) (allele_total gd i))
                              [0..<nat (num_alleles gd ! i)]"
  let ?I = "\<lambda>i (x :: int list list \<times> int list \<times> xdouble list list).
              length (fst x) = ?L + i \<and> length (fst (snd x)) = ?L + i
              \<and> (\<forall>i'. i \<le> i' \<and> i' < ?L \<longrightarrow> fst x ! i' = [] \<and> fst (snd x) ! i' = 0)
              \<and> snd (snd x) = map ?row [0..<i]"
  let ?body = "\<lambda>i (total_locus_alleles, total_alleles, p). do {
         na \<leftarrow> nth_chk (num_alleles gd) i;
         if na < 0 then None else do {
           let total_locus_alleles = total_locus_alleles @ [replicate (nat na) 0];
           let total_alleles = total_alleles @ [0];
           let p = p @ [replicate (nat na) (Finite 0)];
           obs_locus_genotypes \<leftarrow> nth_chk (observed_alleles gd) i;
           (total_locus_alleles, total_alleles) \<leftarrow>
             count_locus i obs_locus_genotypes (total_locus_alleles, total_alleles);
           p \<leftarrow> frequencies_locus i (nat na) total_locus_alleles total_alleles p;
           Some (total_locus_alleles, total_alleles, p)
         }
       }"
  have "\<exists>c. for_upto ?L ?body (replicate ?L [], replicate ?L 0, []) = Some c \<and> ?I ?L c"
  proof (rule for_upto_total [where I = ?I])
    show "?I 0 (replicate ?L [], replicate ?L 0, [])" by simp
  next
    fix i and x :: "int list list \<times> int list \<times> xdouble list list"
    assume i: "i < ?L" and x: "?I i x"
    obtain tla ta p where xe: "x = (tla, ta, p)" by (cases x)
    have len: "length tla = ?L + i" "length ta = ?L + i" and z: "tla ! i = []" "ta ! i = 0"
      and rest: "\<forall>i'. i \<le> i' \<and> i' < ?L \<longrightarrow> tla ! i' = [] \<and> ta ! i' = 0"
      and p: "p = map ?row [0..<i]"
      using x i xe by simp_all
    let ?na = "num_alleles gd ! i" and ?rows = "observed_alleles gd ! i"
    have na: "nth_chk (num_alleles gd) i = Some ?na" "\<not> ?na < 0"
      and rows: "nth_chk (observed_alleles gd) i = Some ?rows" "?rows \<noteq> []"
         "\<forall>g\<in>set ?rows. length g = nat ?na"
      using ok i unfolding data_ok_def by (auto simp: nth_chk_def)
    let ?tla1 = "tla @ [replicate (nat ?na) 0]" and ?ta1 = "ta @ [0]"
    let ?p1 = "p @ [replicate (nat ?na) (Finite 0)]"
    have i1: "i < length ?tla1" "i < length ?ta1" and e1: "?tla1 ! i = []" and t1: "?ta1 ! i = 0"
      using i len z by (simp_all add: nth_append)
    let ?col = "map (\<lambda>k. \<Sum>j<length ?rows. ?rows ! j ! k) [0..<nat ?na]"
    let ?tot = "\<Sum>j<length ?rows. sum_list (?rows ! j)"
    let ?tla2 = "?tla1[i := ?col]" and ?ta2 = "?ta1[i := ?ta1 ! i + ?tot]"
    have c: "count_locus i ?rows (?tla1, ?ta1) = Some (?tla2, ?ta2)"
      by (rule count_locus_closed [OF i1 e1 rows(2,3)])
    have lp: "length p = i" using p by simp
    have i2: "i < length ?tla2" "i < length ?ta2" "i < length ?p1"
      using i1 lp by simp_all
    have n2: "nat ?na \<le> length (?tla2 ! i)" "length (?p1 ! i) = nat ?na"
      using i1 lp by (simp_all add: nth_append)
    have f: "frequencies_locus i (nat ?na) ?tla2 ?ta2 ?p1
               = Some (?p1[i := map (\<lambda>k. int_div_double (?tla2 ! i ! k) (?ta2 ! i)) [0..<nat ?na]])"
      by (rule frequencies_locus_closed [OF i2 n2])
    have r: "map (\<lambda>k. int_div_double (?tla2 ! i ! k) (?ta2 ! i)) [0..<nat ?na] = ?row i"
      using i1 t1 by (auto simp: allele_count_def allele_total_def)
    have pn: "?p1[i := ?row i] = map ?row [0..<Suc i]"
      using lp p by (simp add: list_update_append)
    have b: "?body i x = Some (?tla2, ?ta2, map ?row [0..<Suc i])"
      unfolding xe using na rows(1) c f r pn by (simp add: Let_def)
    have "?I (Suc i) (?tla2, ?ta2, map ?row [0..<Suc i])"
      using len rest by (auto simp: nth_append nth_list_update)
    with b show "\<exists>c. ?body i x = Some c \<and> ?I (Suc i) c" by blast
  qed
  then show ?thesis unfolding initialize_p_def by auto
qed

lemma sum_list_all_zero:
  fixes xs :: "int list"
  shows "\<forall>x\<in>set xs. x = 0 \<Longrightarrow> sum_list xs = 0"
  by (induction xs) auto

lemma zero_locus_counts:
  assumes "\<forall>g\<in>set (observed_alleles gd ! i). \<forall>x\<in>set g. x = 0"
    and "\<forall>g\<in>set (observed_alleles gd ! i). length g = n" and "k < n"
  shows "allele_count gd i k = 0" and "allele_total gd i = 0"
proof -
  have "observed_alleles gd ! i ! j ! k = 0" if "j < length (observed_alleles gd ! i)" for j
    using assms that by (metis nth_mem)
  then show "allele_count gd i k = 0" by (simp add: allele_count_def)
  have "sum_list (observed_alleles gd ! i ! j) = 0" if "j < length (observed_alleles gd ! i)" for j
  proof -
    have "\<forall>x\<in>set (observed_alleles gd ! i ! j). x = 0" using assms(1) that by (metis nth_mem)
    then show ?thesis by (rule sum_list_all_zero)
  qed
  then show "allele_total gd i = 0" by (simp add: allele_total_def)
qed

lemma NaN_row_not_simplex: "\<not> xsimplex (replicate n NaN)"
proof
  assume "xsimplex (replicate n NaN)"
  then obtain rs where rs: "replicate n NaN = map Finite rs" and s: "sum_list rs = 1"
    unfolding xsimplex_def by blast
  show False
  proof (cases n)
    case 0
    then show False using rs s by simp
  next
    case (Suc m)
    then show False using rs by (cases rs) simp_all
  qed
qed

lemma silent_locus_data_ok: "data_ok silent_locus_data"
  by (auto simp: data_ok_def silent_locus_data_def less_Suc_eq numeral_2_eq_2)

section \<open>The kernel with underflow\<close>


lemma term_sum_loop:
  fixes f :: "real \<Rightarrow> real"
  assumes "n \<le> length xs" "n \<le> length ys" "n \<le> length zs"
  shows "for_upto n (\<lambda>i res. do {
        a \<leftarrow> nth_chk xs i;
        b \<leftarrow> nth_chk ys i;
        c \<leftarrow> nth_chk zs i;
        Some (res + f (a + b - c))
      }) (0::real) = Some (\<Sum>d<n. f (xs ! d + ys ! d - zs ! d))"
    (is "for_upto n ?body 0 = _")
proof -
  let ?I = "\<lambda>i (r::real). r = (\<Sum>d<i. f (xs ! d + ys ! d - zs ! d))"
  have "\<exists>c. for_upto n ?body 0 = Some c \<and> ?I n c"
  proof (rule for_upto_total [where I = ?I])
    show "?I 0 0" by simp
  next
    fix i b assume "i < n" and "?I i b"
    then show "\<exists>c. ?body i b = Some c \<and> ?I (Suc i) c"
      using assms by (simp add: nth_chk_def)
  qed
  then show ?thesis by auto
qed

lemma double_exp_nonneg: "0 \<le> double_exp x"
  by (simp add: double_exp_def)

lemma calc_genotype_marginal_llik_ieee_spec:
  assumes coi: "0 \<le> coi"
    and table: "lgamma_table_ok lk (nat coi + 1)"
    and sd: "nat coi < length (lookup_sampling_depth lk)"
            "length p < length (lookup_sampling_depth lk ! nat coi)"
    and depth: "depth = min (importance_sampling_depth pr) (lookup_sampling_depth lk ! nat coi ! length p)"
               "1 \<le> depth"
    and obs: "length obs = length p" "\<forall>ob\<in>set obs. ob = 0 \<or> ob = 1"
    and q: "reweight_allele_frequencies p obs en ep = Some q"
    and draws: "sample_genotype smp coi q depth s = (gs, s')" "nat depth \<le> length gs"
       "\<forall>d<nat depth. length (gs ! d) = length p \<and> (\<forall>x\<in>set (gs ! d). 0 \<le> x \<and> x \<le> coi)"
  shows "calc_genotype_marginal_llik_ieee smp lk pr obs coi p en ep s =
           Some (double_log ((\<Sum>d<nat depth. double_exp (spec_log_weight obs coi p q en ep (gs ! d)))
                               / real_of_int depth), s')"
proof -
  have d0: "0 \<le> depth" and dn: "depth \<noteq> 0" using depth(2) by simp_all
  have lq: "length q = length p" using reweight_length [OF q] obs(1) by simp
  have gq: "\<forall>d<nat depth. length (gs ! d) = length q \<and> (\<forall>x\<in>set (gs ! d). 0 \<le> x \<and> x \<le> coi)"
    using draws(3) lq by simp
  have go: "\<forall>i<nat depth. length (gs ! i) = length obs \<and> (\<forall>x\<in>set (gs ! i). 0 \<le> x)"
    using draws(3) obs(1) by simp
  have ip: "calc_genotype_log_pmf lk gs coi q depth =
              Some (map (\<lambda>j. spec_multinomial_log_pmf coi (gs ! j) q) [0..<nat depth])"
    by (rule calc_genotype_log_pmf_spec [OF table coi d0 draws(2) gq])
  have gp: "calc_genotype_log_pmf lk gs coi p depth =
              Some (map (\<lambda>j. spec_multinomial_log_pmf coi (gs ! j) p) [0..<nat depth])"
    by (rule calc_genotype_log_pmf_spec [OF table coi d0 draws(2) draws(3)])
  obtain ol where ol: "calc_obs_genotype_lliks obs gs en ep depth = Some ol"
    and lol: "length ol = length gs"
    and vol: "\<forall>i<nat depth. ol ! i = spec_obs_llik obs (gs ! i) en ep"
    using calc_obs_genotype_lliks_spec [OF d0 draws(2) go obs(2)] by blast
  let ?gp = "map (\<lambda>j. spec_multinomial_log_pmf coi (gs ! j) p) [0..<nat depth]"
  let ?ip = "map (\<lambda>j. spec_multinomial_log_pmf coi (gs ! j) q) [0..<nat depth]"
  have loop: "for_upto (nat depth) (\<lambda>i res. do {
        a \<leftarrow> nth_chk ol i;
        b \<leftarrow> nth_chk ?gp i;
        c \<leftarrow> nth_chk ?ip i;
        Some (res + double_exp (a + b - c))
      }) (0::real) = Some (\<Sum>d<nat depth. double_exp (ol ! d + ?gp ! d - ?ip ! d))"
    using draws(2) lol by (intro term_sum_loop [where f = double_exp]) simp_all
  have sum: "(\<Sum>d<nat depth. double_exp (ol ! d + ?gp ! d - ?ip ! d)) =
      (\<Sum>d<nat depth. double_exp (spec_log_weight obs coi p q en ep (gs ! d)))"
    using vol by (simp add: spec_log_weight_def)
  have row: "at_int (lookup_sampling_depth lk) coi = Some (lookup_sampling_depth lk ! nat coi)"
    using coi sd(1) by (simp add: at_int_def)
  have cap: "nth_chk (lookup_sampling_depth lk ! nat coi) (length p)
               = Some (lookup_sampling_depth lk ! nat coi ! length p)"
    using sd(2) by (simp add: nth_chk_def)
  show ?thesis
    unfolding calc_genotype_marginal_llik_ieee_def
    by (simp only: Option.bind.simps Let_def row cap depth(1) [symmetric] q draws(1) prod.case
          ip gp ol loop sum dn if_False)
qed


lemma three_allele_table: "lgamma_table_ok three_allele_lookup (nat 1 + 1)"
  using lgamma_table_3 [of "[[5, 5, 5, 5], [5, 5, 5, 5], [5, 5, 5, 5]]"]
  by (simp add: lgamma_table_ok_def three_allele_lookup_def)

lemma uniform_observed_reweight:
  assumes "0 < en" "en < 1" "0 < ep"
  shows "reweight_allele_frequencies [1/3, 1/3, 1/3] [1, 1, 1] en ep = Some [1/3, 1/3, 1/3]"
proof -
  define w where "w = 1/3 * (1 - en) + ep + 1 / 10 ^ 6"
  have w: "0 < w" using assms by (simp add: w_def add_pos_pos)
  have r: "reweight_raw [1/3, 1/3, 1/3] [1, 1, 1] en ep k = w" if "k < 3" for k
  proof -
    from that have "k = 0 \<or> k = 1 \<or> k = 2" by auto
    then show ?thesis by (auto simp: reweight_raw_def w_def)
  qed
  have s: "(\<Sum>i<3. reweight_raw [1/3, 1/3, 1/3] [1, 1, 1] en ep i) = 3 * w"
    using r by simp
  have "map (\<lambda>k. reweight_raw [1/3, 1/3, 1/3] [1, 1, 1] en ep k
                  * (1 / (\<Sum>i<3. reweight_raw [1/3, 1/3, 1/3] [1, 1, 1] en ep i))) [0..<3]
          = map (\<lambda>k. 1/3) [0..<3]"
    unfolding s using r w by (intro map_cong) simp_all
  also have "\<dots> = [1/3, 1/3, 1/3]" by (simp add: numeral_3_eq_3)
  finally have m: "map (\<lambda>k. reweight_raw [1/3, 1/3, 1/3] [1, 1, 1] en ep k
                  * (1 / (\<Sum>i<3. reweight_raw [1/3, 1/3, 1/3] [1, 1, 1] en ep i))) [0..<3]
          = [1/3, 1/3, 1/3]" .
  have l: "length [1/3, 1/3, 1/3 :: real] = 3" by simp
  have "reweight_allele_frequencies [1/3, 1/3, 1/3] [1, 1, 1] en ep
          = Some (map (\<lambda>k. reweight_raw [1/3, 1/3, 1/3] [1, 1, 1] en ep k
                  * (1 / (\<Sum>i<length [1/3, 1/3, 1/3 :: real].
                             reweight_raw [1/3, 1/3, 1/3] [1, 1, 1] en ep i)))
                    [0..<length [1/3, 1/3, 1/3 :: real]])"
    by (rule reweight_closed) simp
  then show ?thesis unfolding l m .
qed

lemma underflow_reweight:
  "reweight_allele_frequencies [1/3, 1/3, 1/3] [1, 1, 1] (1/10) (1 / 10 ^ 200)
     = Some [1/3, 1/3, 1/3]"
proof (rule uniform_observed_reweight)
  show "0 < (1 / 10 ^ 200 :: real)" by (rule divide_pos_pos, simp, rule zero_less_power, simp)
qed simp_all

lemma underflow_log_weight:
  "spec_log_weight [1, 1, 1] 1 [1/3, 1/3, 1/3] [1/3, 1/3, 1/3] (1/10) (1 / 10 ^ 200) [1, 0, 0]
     = ln (9/10) + (ln (1 / 10 ^ 200) + ln (1 / 10 ^ 200))"
  by (simp add: spec_log_weight_def spec_obs_llik_def spec_emission_def lessThan_Suc numeral_3_eq_3)

lemma underflow_bound:
  "(9/10) * ((1 / 10 ^ 200) * (1 / 10 ^ 200) :: real) < 1 / 2 ^ 1075"
proof -
  have a: "(1 / 10 ^ 200) * (1 / 10 ^ 200) = (1 / 10 ^ 400 :: real)"
    by (simp only: power_add [symmetric] times_divide_times_eq mult_1 numeral_plus_numeral
          semiring_norm)
  have "(2::real) ^ 1200 = (2 ^ 3) ^ 400" by (simp only: power_mult [symmetric]) simp
  also have "\<dots> \<le> 10 ^ 400" by (rule power_mono) simp_all
  finally have b: "(2::real) ^ 1200 \<le> 10 ^ 400" .
  have c: "(2::real) ^ 1075 < 2 ^ 1200" by (rule power_strict_increasing) simp_all
  have e: "(2::real) ^ 1075 < 10 ^ 400" by (rule less_le_trans [OF c b])
  have p: "0 < (2::real) ^ 1075" "0 < (10::real) ^ 400" by (rule zero_less_power, simp)+
  have d: "(1 / 10 ^ 400 :: real) < 1 / 2 ^ 1075"
    using e p by (simp only: frac_less2 order_refl zero_less_one)
  have "(9/10) * (1 / 10 ^ 400 :: real) \<le> 1 * (1 / 10 ^ 400)"
    by (rule mult_right_mono) (simp, rule less_imp_le, rule divide_pos_pos, simp, rule p(2))
  then have "(9/10) * (1 / 10 ^ 400 :: real) \<le> 1 / 10 ^ 400" by (simp only: mult_1)
  then show ?thesis unfolding a using d by (rule le_less_trans)
qed

lemma underflow_double_exp:
  "double_exp (ln (9/10) + (ln (1 / 10 ^ 200) + ln (1 / 10 ^ 200))) = 0"
proof -
  have p: "0 < (9/10 :: real)" "0 < (1 / 10 ^ 200 :: real)"
    by (simp, rule divide_pos_pos, simp, rule zero_less_power, simp)
  have "exp (ln (9/10) + (ln (1 / 10 ^ 200) + ln (1 / 10 ^ 200)))
          = (9/10) * ((1 / 10 ^ 200) * (1 / 10 ^ 200) :: real)"
    by (simp only: exp_add exp_ln [OF p(1)] exp_ln [OF p(2)])
  then have "exp (ln (9/10) + (ln (1 / 10 ^ 200) + ln (1 / 10 ^ 200))) < (1 / 2 ^ 1075 :: real)"
    using underflow_bound by (simp only:)
  then show ?thesis by (simp only: double_exp_def if_True)
qed

lemma double_log_pos: "0 < x \<Longrightarrow> double_log x = Finite (ln x)"
  by (simp add: double_log_def)

section \<open>The likelihood kernel: claims\<close>

text \<open>
  \<^bold>\<open>C5.\<close> For allele frequencies \<open>p\<close> with non-negative entries (at least one allele,
  as the data model requires), a 0/1 observation vector of the same length, a
  false-negative rate in \<open>(0,1)\<close> and a false-positive rate \<open>\<ge> 0\<close>,
  \<^verbatim>\<open>reweight_allele_frequencies\<close> returns a vector of the same length whose entries
  are all strictly positive and sum to 1.
\<close>

theorem reweight_allele_frequencies_simplex:
  assumes "length observed = length p" and "p \<noteq> []"
    and "\<forall>x\<in>set p. 0 \<le> x"
    and "\<forall>ob\<in>set observed. ob = 0 \<or> ob = 1"
    and "0 < en" and "en < 1" and "0 \<le> ep"
  shows "\<exists>q. reweight_allele_frequencies p observed en ep = Some q \<and> length q = length p
            \<and> sum_list q = 1 \<and> (\<forall>x\<in>set q. 0 < x)"
  using assms by (rule reweight_simplex_aux)

theorem reweight_allele_frequencies_simplex_witness:
  "\<exists>q. reweight_allele_frequencies [1/2, 1/4, 1/4] [1, 0, 0] (1/10) 0 = Some q \<and> length q = 3
            \<and> sum_list q = 1 \<and> (\<forall>x\<in>set q. 0 < x)"
  using reweight_allele_frequencies_simplex [of "[1, 0, 0]" "[1/2, 1/4, 1/4]" "1/10" 0]
  by (simp add: numeral_3_eq_3)

text \<open>
  \<^bold>\<open>C3.\<close> For latent count vectors (entries \<open>\<ge> 0\<close>), a 0/1 observation vector of
  the same length and rates in \<open>(0,1)\<close>, \<^verbatim>\<open>calc_obs_genotype_lliks\<close> returns, for each
  of the \<open>n\<close> genotypes, the sum over the alleles of the specification's emission
  table: \<open>g\<^sub>a * log (1 - eps_neg)\<close> for an observed allele with \<open>g\<^sub>a > 0\<close>,
  \<open>log eps_pos\<close> for an observed allele with \<open>g\<^sub>a = 0\<close>, \<open>g\<^sub>a * log eps_neg\<close> for an
  unobserved allele with \<open>g\<^sub>a > 0\<close>, and \<open>log (1 - eps_pos)\<close> for an unobserved allele
  with \<open>g\<^sub>a = 0\<close>.
\<close>

theorem calc_obs_genotype_lliks_emission:
  assumes "0 \<le> n" and "nat n \<le> length gs"
    and "\<forall>i<nat n. length (gs ! i) = length obs \<and> (\<forall>x\<in>set (gs ! i). 0 \<le> x)"
    and "\<forall>ob\<in>set obs. ob = 0 \<or> ob = 1"
    and "0 < en" and "en < 1" and "0 < ep" and "ep < 1"
  shows "\<exists>lliks. calc_obs_genotype_lliks obs gs en ep n = Some lliks \<and> length lliks = length gs
           \<and> (\<forall>i<nat n. lliks ! i = (\<Sum>a<length obs. spec_emission (obs ! a) (gs ! i ! a) en ep))"
  using calc_obs_genotype_lliks_spec [OF assms(1-4)] unfolding spec_obs_llik_def .

theorem calc_obs_genotype_lliks_emission_witness:
  "\<exists>lliks. calc_obs_genotype_lliks [1, 1, 0, 0] [[2, 0, 1, 0]] (1/10) (1/100) 1 = Some lliks
      \<and> lliks ! 0 = 2 * ln (9/10) + ln (1/100) + ln (1/10) + ln (99/100)"
proof -
  have "\<exists>lliks. calc_obs_genotype_lliks [1, 1, 0, 0] [[2, 0, 1, 0]] (1/10) (1/100) 1 = Some lliks
      \<and> length lliks = length [[2, 0, 1, 0 :: int]]
      \<and> (\<forall>i<nat 1. lliks ! i = (\<Sum>a<length [1, 1, 0, 0 :: int].
            spec_emission ([1, 1, 0, 0] ! a) ([[2, 0, 1, 0]] ! i ! a) (1/10) (1/100)))"
    by (rule calc_obs_genotype_lliks_emission) simp_all
  then show ?thesis
    by (auto simp: spec_emission_def lessThan_Suc numeral_nat)
qed

text \<open>
  \<^bold>\<open>C8.\<close> With a log-Gamma table that holds \<open>ln \<Gamma>(k)\<close> at the indices
  \<open>1, \<dots>, coi + 1\<close>, for count vectors \<open>g\<close> (entries \<open>\<ge> 0\<close>) that sum to \<open>coi\<close> and
  a frequency vector \<open>\<pi>\<close> of the same length, every entry that
  \<^verbatim>\<open>calc_genotype_log_pmf\<close> returns is
  \<open>ln \<Gamma>(coi + 1) - (\<Sum>a. ln \<Gamma>(g\<^sub>a + 1)) + (\<Sum>a. g\<^sub>a * ln (\<pi>\<^sub>a + 1e-12))\<close>, the sums
  running over all alleles: the alleles with \<open>g\<^sub>a = 0\<close>, which the code skips,
  contribute zero.
\<close>

theorem calc_genotype_log_pmf_multinomial:
  assumes table: "lgamma_table_ok lk (nat coi + 1)"
    and coi: "0 \<le> coi"
    and n: "0 \<le> n" "nat n \<le> length gs"
    and g: "\<forall>j<nat n. length (gs ! j) = length \<pi> \<and> (\<forall>x\<in>set (gs ! j). 0 \<le> x)
              \<and> sum_list (gs ! j) = coi"
    and pi: "\<forall>x\<in>set \<pi>. 0 \<le> x"
  shows "\<exists>res. calc_genotype_log_pmf lk gs coi \<pi> n = Some res \<and> length res = nat n
           \<and> (\<forall>j<nat n. res ! j =
                 lnGamma (coi + 1) - (\<Sum>a<length \<pi>. lnGamma (gs ! j ! a + 1))
                   + (\<Sum>a<length \<pi>. real_of_int (gs ! j ! a) * ln (\<pi> ! a + 1 / 10 ^ 12)))"
proof -
  have g': "\<forall>j<nat n. length (gs ! j) = length \<pi> \<and> (\<forall>x\<in>set (gs ! j). 0 \<le> x \<and> x \<le> coi)"
    using g by (rule counts_le_coi)
  show ?thesis
    unfolding calc_genotype_log_pmf_spec [OF table coi n g']
    by (simp add: spec_multinomial_log_pmf_def)
qed

theorem calc_genotype_log_pmf_multinomial_witness:
  "\<exists>res. calc_genotype_log_pmf \<lparr>lookup_lgamma = [0, 0, 0, ln 2], lookup_sampling_depth = []\<rparr>
            [[2, 0], [1, 1]] 2 [1/4, 3/4] 2 = Some res
      \<and> res ! 0 = ln 2 - ln 2 + 2 * ln (1/4 + 1 / 10 ^ 12)
      \<and> res ! 1 = ln 2 + (ln (1/4 + 1 / 10 ^ 12) + ln (3/4 + 1 / 10 ^ 12))"
proof -
  let ?lk = "\<lparr>lookup_lgamma = [0, 0, 0, ln 2], lookup_sampling_depth = []\<rparr>"
  have t: "lgamma_table_ok ?lk (nat 2 + 1)" using lgamma_table_3 [of "[]"] by simp
  have g: "\<forall>j<nat 2. length ([[2, 0], [1, 1 :: int]] ! j) = length [1/4, 3/4 :: real]
             \<and> (\<forall>x\<in>set ([[2, 0], [1, 1 :: int]] ! j). 0 \<le> x)
             \<and> sum_list ([[2, 0], [1, 1 :: int]] ! j) = 2"
    by (auto simp: less_Suc_eq numeral_2_eq_2)
  have "\<exists>res. calc_genotype_log_pmf ?lk [[2, 0], [1, 1]] 2 [1/4, 3/4] 2 = Some res \<and> length res = nat 2
           \<and> (\<forall>j<nat 2. res ! j =
                 lnGamma (2 + 1) - (\<Sum>a<length [1/4, 3/4 :: real]. lnGamma ([[2, 0], [1, 1]] ! j ! a + 1))
                   + (\<Sum>a<length [1/4, 3/4 :: real]. real_of_int ([[2, 0], [1, 1]] ! j ! a)
                        * ln ([1/4, 3/4] ! a + 1 / 10 ^ 12)))"
    by (rule calc_genotype_log_pmf_multinomial [OF t _ _ _ g]) simp_all
  then show ?thesis
    by (auto simp: lnGamma_def lessThan_Suc numeral_2_eq_2 fact_2)
qed



section \<open>The chain: claims\<close>

text \<open>
  \<^bold>\<open>C6.\<close> On a chain whose vectors have the sizes of the data, \<^verbatim>\<open>update_m\<close>
  returns, and every sample \<open>i\<close> with \<open>1 \<le> m[i] \<le> max_coi\<close> before the call has
  \<open>1 \<le> m[i] \<le> max_coi\<close> after it. A proposal outside \<open>[1, max_coi]\<close> is not
  committed: the step for that sample changes nothing in the chain but the state of
  the sampler, which has made its draw.
\<close>

theorem update_m_coi_bounds:
  assumes shape: "chain_shape st" and draws: "genotype_draws_ok smp"
  shows "(\<exists>st'. update_m smp it st = Some st' \<and> params st' = params st
            \<and> (\<forall>i<num_samples (genotyping_data st).
                  coi_ok (params st) (m_vec st ! i) \<longrightarrow> coi_ok (params st') (m_vec st' ! i)))
       \<and> (\<forall>i<num_samples (genotyping_data st).
            coi_ok (params st) (m_vec st ! i)
            \<and> \<not> coi_ok (params st)
                   (fst (sample_coi_delta smp (m_prop_mean st ! i) (sampler_state st)) + m_vec st ! i)
            \<longrightarrow> update_m_sample smp it i st =
                  Some (st\<lparr>sampler_state :=
                          snd (sample_coi_delta smp (m_prop_mean st ! i) (sampler_state st))\<rparr>))"
proof (intro conjI allI impI)
  obtain st' where "update_m smp it st = Some st'" "params st' = params st"
    "\<forall>k. coi_ok (params st) (m_vec st ! k) \<longrightarrow> coi_ok (params st) (m_vec st' ! k)"
    using update_m_total [OF shape draws, of it] by blast
  then show "\<exists>st'. update_m smp it st = Some st' \<and> params st' = params st
            \<and> (\<forall>i<num_samples (genotyping_data st).
                  coi_ok (params st) (m_vec st ! i) \<longrightarrow> coi_ok (params st') (m_vec st' ! i))"
    by auto
next
  fix i
  assume i: "i < num_samples (genotyping_data st)"
    and c: "coi_ok (params st) (m_vec st ! i)
            \<and> \<not> coi_ok (params st)
                   (fst (sample_coi_delta smp (m_prop_mean st ! i) (sampler_state st)) + m_vec st ! i)"
  show "update_m_sample smp it i st =
          Some (st\<lparr>sampler_state := snd (sample_coi_delta smp (m_prop_mean st ! i) (sampler_state st))\<rparr>)"
    using c
    by (intro update_m_sample_out_of_range
          [OF shape i, of smp "fst (sample_coi_delta smp (m_prop_mean st ! i) (sampler_state st))"])
       simp_all
qed

theorem update_m_coi_bounds_witness:
  "(\<exists>st'. update_m (fixed_sampler 1 (1/4) (- 1/10)) 1 example_chain = Some st'
       \<and> coi_ok (params st') (m_vec st' ! 0))
   \<and> update_m_sample (fixed_sampler 5 (1/4) (- 1/10)) 1 0 example_chain
       = Some (example_chain\<lparr>sampler_state := 1\<rparr>)"
proof
  have "coi_ok (params example_chain) (m_vec example_chain ! 0)"
    by (simp add: coi_ok_def example_chain_def example_params_def)
  then show "\<exists>st'. update_m (fixed_sampler 1 (1/4) (- 1/10)) 1 example_chain = Some st'
       \<and> coi_ok (params st') (m_vec st' ! 0)"
    using update_m_coi_bounds [OF example_chain_shape fixed_sampler_genotypes, of 1 "1/4" "- 1/10" 1]
    by (auto simp: example_chain_def example_data_def)
next
  have "coi_ok (params example_chain) (m_vec example_chain ! 0)
      \<and> \<not> coi_ok (params example_chain)
             (fst (sample_coi_delta (fixed_sampler 5 (1/4) (- 1/10)) (m_prop_mean example_chain ! 0)
                    (sampler_state example_chain)) + m_vec example_chain ! 0)"
    by (simp add: coi_ok_def example_chain_def example_params_def fixed_sampler_def)
  moreover have "0 < num_samples (genotyping_data example_chain)"
    by (simp add: example_chain_def example_data_def)
  ultimately show "update_m_sample (fixed_sampler 5 (1/4) (- 1/10)) 1 0 example_chain
       = Some (example_chain\<lparr>sampler_state := 1\<rparr>)"
    using update_m_coi_bounds [OF example_chain_shape fixed_sampler_genotypes, of 5 "1/4" "- 1/10" 1]
    by (simp add: fixed_sampler_def example_chain_def example_data_def)
qed

text \<open>
  \<^bold>\<open>C7.\<close> When the proposed error rate lies outside \<open>(0, max_eps)\<close>,
  \<^verbatim>\<open>update_eps_pos\<close> (and likewise \<^verbatim>\<open>update_eps_neg\<close>) returns the chain it was given:
  \<open>eps_pos\<close>, \<open>eps_neg\<close>, the proposal variances, the acceptance counters, \<open>llik_old\<close>
  and \<open>llik_new\<close> are those of before the call. The only member that differs is
  the sampler, which has made its draw.
\<close>

theorem update_eps_out_of_range_unchanged:
  assumes "sample_epsilon_pos smp (eps_pos st) (eps_pos_var st) (sampler_state st) = (cp, sp)"
    and "sample_epsilon_neg smp (eps_neg st) (eps_neg_var st) (sampler_state st) = (cn, sn)"
  shows "(\<not> (0 < cp \<and> cp < max_eps_pos (params st))
            \<longrightarrow> update_eps_pos smp it st = Some (st\<lparr>sampler_state := sp\<rparr>))
       \<and> (\<not> (0 < cn \<and> cn < max_eps_neg (params st))
            \<longrightarrow> update_eps_neg smp it st = Some (st\<lparr>sampler_state := sn\<rparr>))"
  using assms by (auto simp: update_eps_pos_def update_eps_neg_def Let_def)

theorem update_eps_out_of_range_unchanged_witness:
  "update_eps_pos (fixed_sampler 1 (1/2) (- 1/10)) 1 example_chain
     = Some (example_chain\<lparr>sampler_state := 1\<rparr>)
   \<and> update_eps_neg (fixed_sampler 1 (1/2) (- 1/10)) 1 example_chain
     = Some (example_chain\<lparr>sampler_state := 1\<rparr>)"
  using update_eps_out_of_range_unchanged [of "fixed_sampler 1 (1/2) (- 1/10)" example_chain
          "1/2" 1 "1/2" 1 1]
  by (simp add: fixed_sampler_def example_chain_def example_params_def)

text \<open>
  \<^bold>\<open>C10.\<close> On a chain whose \<open>llik_old\<close> has a row for every locus and an entry for
  every sample, \<^verbatim>\<open>get_llik\<close> returns the sum of \<open>llik_old[j][i]\<close> over all loci \<open>j\<close>
  and samples \<open>i\<close>, and the chain after the call is the chain before it with that sum
  stored in the member \<open>llik\<close>: \<open>m\<close>, \<open>p\<close>, the error rates, both caches, the proposal
  scales and the counters are unchanged.
\<close>

theorem get_llik_sum:
  assumes "num_loci (genotyping_data st) \<le> length (llik_old st)"
    and "\<forall>j<num_loci (genotyping_data st). num_samples (genotyping_data st) \<le> length (llik_old st ! j)"
  shows "get_llik st =
           Some ((\<Sum>j<num_loci (genotyping_data st). \<Sum>i<num_samples (genotyping_data st). llik_old st ! j ! i),
                 st\<lparr>llik := (\<Sum>j<num_loci (genotyping_data st).
                               \<Sum>i<num_samples (genotyping_data st). llik_old st ! j ! i)\<rparr>)"
  unfolding get_llik_def calculate_llik_closed [OF assms] by simp

theorem get_llik_sum_witness:
  "get_llik (example_chain\<lparr>llik_old := [[- 1, - 2]],
                           genotyping_data := (genotyping_data example_chain)\<lparr>num_samples := 2\<rparr>\<rparr>)
     = Some (- 3, example_chain\<lparr>llik_old := [[- 1, - 2]],
                           genotyping_data := (genotyping_data example_chain)\<lparr>num_samples := 2\<rparr>,
                           llik := - 3\<rparr>)"
  using get_llik_sum [of "example_chain\<lparr>llik_old := [[- 1, - 2]],
                           genotyping_data := (genotyping_data example_chain)\<lparr>num_samples := 2\<rparr>\<rparr>"]
  by (simp add: example_chain_def example_data_def lessThan_Suc numeral_2_eq_2)




section \<open>Construction: claims\<close>

text \<open>
  \<^bold>\<open>C9.\<close> When every sample's observation vector at a locus \<open>j\<close> is all zeros (and
  the observations are rectangular), the total count of the locus is 0,
  \<^verbatim>\<open>initialize_p\<close> returns without rejecting the input, and every entry of \<open>p[j]\<close> is
  the quotient \<open>0 / 0\<close>, which is NaN: \<open>p[j]\<close> is not a simplex.
\<close>

theorem initialize_p_all_zero_locus:
  assumes ok: "data_ok gd" and j: "j < num_loci gd"
    and zero: "\<forall>g\<in>set (observed_alleles gd ! j). \<forall>x\<in>set g. x = 0"
  shows "allele_total gd j = 0
       \<and> (\<exists>p. initialize_p gd = Some p \<and> length p = num_loci gd
              \<and> p ! j = replicate (nat (num_alleles gd ! j)) NaN \<and> \<not> xsimplex (p ! j))"
proof -
  have rect: "\<forall>g\<in>set (observed_alleles gd ! j). length g = nat (num_alleles gd ! j)"
    using ok j unfolding data_ok_def by simp
  have t: "allele_total gd j = 0"
  proof -
    have "sum_list (observed_alleles gd ! j ! s) = 0" if "s < length (observed_alleles gd ! j)" for s
    proof -
      have "\<forall>x\<in>set (observed_alleles gd ! j ! s). x = 0" using zero that by (metis nth_mem)
      then show ?thesis by (rule sum_list_all_zero)
    qed
    then show ?thesis by (simp add: allele_total_def)
  qed
  have c: "allele_count gd j k = 0" if "k < nat (num_alleles gd ! j)" for k
    using zero_locus_counts(1) [OF zero rect that] .
  let ?p = "map (\<lambda>i. map (\<lambda>k. int_div_double (allele_count gd i k) (allele_total gd i))
                              [0..<nat (num_alleles gd ! i)]) [0..<num_loci gd]"
  have "?p ! j = replicate (nat (num_alleles gd ! j)) NaN"
    using j c t by (auto intro!: nth_equalityI simp: int_div_double_def)
  then show ?thesis
    using t initialize_p_closed [OF ok] NaN_row_not_simplex by simp
qed

theorem initialize_p_all_zero_locus_witness:
  "allele_total silent_locus_data 1 = 0
   \<and> (\<exists>p. initialize_p silent_locus_data = Some p \<and> length p = 2
          \<and> p ! 1 = [NaN, NaN] \<and> \<not> xsimplex (p ! 1))"
proof -
  have "1 < num_loci silent_locus_data" by (simp add: silent_locus_data_def)
  moreover have "\<forall>g\<in>set (observed_alleles silent_locus_data ! 1). \<forall>x\<in>set g. x = 0"
    by (simp add: silent_locus_data_def)
  ultimately show ?thesis
    using initialize_p_all_zero_locus [OF silent_locus_data_ok, of 1]
    by (simp add: silent_locus_data_def numeral_2_eq_2)
qed

section \<open>Underflow in the kernel: claims\<close>

text \<open>
  \<^bold>\<open>C2\<close> (amended). \<^verbatim>\<open>calc_genotype_marginal_llik\<close> adds the exponentials of the
  per-draw log weights as they are; no maximum is subtracted. For finite log weights
  and \<open>D \<ge> 1\<close> draws the result is minus infinity when the exponential of every log
  weight underflows to zero, and otherwise the logarithm of \<open>1/D\<close> times the sum of
  the exponentials.
\<close>

theorem calc_genotype_marginal_llik_naive_sum:
  assumes coi: "1 \<le> coi"
    and table: "lgamma_table_ok lk (nat coi + 1)"
    and sd: "nat coi < length (lookup_sampling_depth lk)"
            "length p < length (lookup_sampling_depth lk ! nat coi)"
    and depth: "D = min (importance_sampling_depth pr) (lookup_sampling_depth lk ! nat coi ! length p)"
               "1 \<le> D"
    and obs: "length obs = length p" "\<forall>ob\<in>set obs. ob = 0 \<or> ob = 1"
    and q: "reweight_allele_frequencies p obs en ep = Some q"
    and draws: "sample_genotype smp coi q D s = (gs, s')" "nat D \<le> length gs"
       "\<forall>d<nat D. length (gs ! d) = length p \<and> (\<forall>x\<in>set (gs ! d). 0 \<le> x) \<and> sum_list (gs ! d) = coi"
  shows "calc_genotype_marginal_llik_ieee smp lk pr obs coi p en ep s =
           Some (if \<forall>d<nat D. double_exp (spec_log_weight obs coi p q en ep (gs ! d)) = 0
                 then NegInf
                 else Finite (ln ((1 / real_of_int D)
                        * (\<Sum>d<nat D. double_exp (spec_log_weight obs coi p q en ep (gs ! d))))), s')"
proof -
  let ?w = "\<lambda>d. double_exp (spec_log_weight obs coi p q en ep (gs ! d))"
  have c: "0 \<le> coi" using coi by simp
  have g: "\<forall>d<nat D. length (gs ! d) = length p \<and> (\<forall>x\<in>set (gs ! d). 0 \<le> x \<and> x \<le> coi)"
    using draws(3) by (rule counts_le_coi)
  have eq: "calc_genotype_marginal_llik_ieee smp lk pr obs coi p en ep s =
              Some (double_log ((\<Sum>d<nat D. ?w d) / real_of_int D), s')"
    by (rule calc_genotype_marginal_llik_ieee_spec [OF c table sd depth obs q draws(1,2) g])
  have nn: "0 \<le> (\<Sum>d<nat D. ?w d)" by (intro sum_nonneg double_exp_nonneg)
  have z: "(\<Sum>d<nat D. ?w d) = 0 \<longleftrightarrow> (\<forall>d<nat D. ?w d = 0)"
    using sum_nonneg_eq_0_iff [of "{..<nat D}" ?w] double_exp_nonneg by auto
  have dpos: "0 < real_of_int D" using depth(2) by simp
  show ?thesis
  proof (cases "\<forall>d<nat D. ?w d = 0")
    case True
    then have "(\<Sum>d<nat D. ?w d) = 0" using z by simp
    then show ?thesis using eq True by (simp add: double_log_def)
  next
    case False
    then have sp: "0 < (\<Sum>d<nat D. ?w d)" using z nn by (metis less_eq_real_def)
    then have "0 < (\<Sum>d<nat D. ?w d) / real_of_int D" using dpos by (rule divide_pos_pos)
    then have "double_log ((\<Sum>d<nat D. ?w d) / real_of_int D)
                 = Finite (ln ((\<Sum>d<nat D. ?w d) / real_of_int D))"
      by (rule double_log_pos)
    then show ?thesis using eq False by simp
  qed
qed

theorem calc_genotype_marginal_llik_naive_sum_witness:
  "calc_genotype_marginal_llik_ieee (fixed_sampler 1 (1/4) (- 1/10)) example_lookup example_params
      [1, 0] 1 [1/2, 1/2] (1/10) (1/100) 0
    = Some (if \<forall>d<2. double_exp (spec_log_weight [1, 0] 1 [1/2, 1/2]
                           [460001 / 520002, 60001 / 520002] (1/10) (1/100)
                           ([[1, 0], [1, 0]] ! d)) = 0
            then NegInf
            else Finite (ln ((1 / 2)
                   * (\<Sum>d<2. double_exp (spec_log_weight [1, 0] 1 [1/2, 1/2]
                           [460001 / 520002, 60001 / 520002] (1/10) (1/100)
                           ([[1, 0], [1, 0]] ! d))))), 1)"
proof -
  let ?q = "[460001 / 520002, 60001 / 520002 :: real]"
  let ?gs = "[[1, 0], [1, 0 :: int]]"
  have t: "lgamma_table_ok example_lookup (nat 1 + 1)"
    using lgamma_table_3 [of "[[5, 5, 5], [5, 5, 5], [5, 5, 5]]"]
    by (simp add: lgamma_table_ok_def example_lookup_def)
  have dr: "sample_genotype (fixed_sampler 1 (1/4) (- 1/10)) 1 ?q 2 0 = (?gs, 1)"
    by (simp add: fixed_sampler_def numeral_2_eq_2)
  have g: "\<forall>d<nat 2. length (?gs ! d) = length [1/2, 1/2 :: real]
             \<and> (\<forall>x\<in>set (?gs ! d). 0 \<le> x) \<and> sum_list (?gs ! d) = 1"
    by (auto simp: less_Suc_eq numeral_2_eq_2)
  have "calc_genotype_marginal_llik_ieee (fixed_sampler 1 (1/4) (- 1/10)) example_lookup example_params
      [1, 0] 1 [1/2, 1/2] (1/10) (1/100) 0
    = Some (if \<forall>d<nat 2. double_exp (spec_log_weight [1, 0] 1 [1/2, 1/2] ?q (1/10) (1/100) (?gs ! d)) = 0
            then NegInf
            else Finite (ln ((1 / real_of_int 2)
                   * (\<Sum>d<nat 2. double_exp (spec_log_weight [1, 0] 1 [1/2, 1/2] ?q (1/10) (1/100)
                         (?gs ! d))))), 1)"
    by (rule calc_genotype_marginal_llik_naive_sum [OF _ t _ _ _ _ _ _ example_reweight dr _ g])
       (simp_all add: example_lookup_def example_params_def)
  then show ?thesis by (simp only: nat_numeral of_int_numeral)
qed

text \<open>
  The claim as stated fails. For three alleles that are all observed,
  \<open>eps_pos = 1e-200\<close> and two draws that put the one strain on the first allele, every
  log weight is the finite number \<open>log 0.9 + 2 log 1e-200\<close>; its exponential is below
  half of the smallest positive double, the sum of the exponentials is zero and the
  function returns \<open>log 0\<close>, minus infinity.
\<close>

theorem calc_genotype_marginal_llik_underflow:
  "calc_genotype_marginal_llik_ieee (fixed_sampler 1 (1/4) (- 1/10)) three_allele_lookup example_params
      [1, 1, 1] 1 [1/3, 1/3, 1/3] (1/10) (1 / 10 ^ 200) 0
    = Some (NegInf, 1)"
proof -
  let ?q = "[1/3, 1/3, 1/3 :: real]"
  let ?gs = "[[1, 0, 0], [1, 0, 0 :: int]]"
  have dr: "sample_genotype (fixed_sampler 1 (1/4) (- 1/10)) 1 ?q 2 0 = (?gs, 1)"
    by (simp add: fixed_sampler_def numeral_2_eq_2)
  have g: "\<forall>d<nat 2. length (?gs ! d) = length ?q
             \<and> (\<forall>x\<in>set (?gs ! d). 0 \<le> x \<and> x \<le> 1)"
    by (auto simp: less_Suc_eq numeral_2_eq_2)
  have w: "double_exp (spec_log_weight [1, 1, 1] 1 ?q ?q (1/10) (1 / 10 ^ 200) (?gs ! d)) = 0"
    if "d < 2" for d
  proof -
    have "?gs ! d = [1, 0, 0]" using that by (auto simp: less_Suc_eq numeral_2_eq_2)
    then show ?thesis by (simp only: underflow_log_weight underflow_double_exp)
  qed
  have "calc_genotype_marginal_llik_ieee (fixed_sampler 1 (1/4) (- 1/10)) three_allele_lookup
          example_params [1, 1, 1] 1 ?q (1/10) (1 / 10 ^ 200) 0
    = Some (double_log ((\<Sum>d<nat 2. double_exp (spec_log_weight [1, 1, 1] 1 ?q ?q (1/10)
                (1 / 10 ^ 200) (?gs ! d))) / real_of_int 2), 1)"
    by (rule calc_genotype_marginal_llik_ieee_spec
          [OF _ three_allele_table _ _ _ _ _ _ underflow_reweight dr _ g])
       (simp_all add: three_allele_lookup_def example_params_def)
  moreover have "(\<Sum>d<nat 2. double_exp (spec_log_weight [1, 1, 1] 1 ?q ?q (1/10)
                (1 / 10 ^ 200) (?gs ! d))) = 0"
    using w by (intro sum.neutral) simp
  ultimately show ?thesis by (simp only: double_log_def) simp
qed

end
